theory Spec2Isabelle
  imports Complex_Main
begin

section \<open>The host engine's services, as pivot\_vtab.c consumes them\<close>

text \<open>
  pivot\_vtab.c is an SQLite extension.  It calls the engine's statement interface
  (prepare, bind, step, column access, reset, finalize, get\_table, declare\_vtab) and
  the engine's string formatter.  These services are not part of the repository; they
  are modelled here as far as the extension observes them.

  A value of the engine is NULL, an integer or a text.  A pointer to a value
  (\<open>sqlite3_value*\<close>) that may be the null pointer is a \<open>sql_value option\<close>; a
  \<open>char*\<close> that may be the null pointer is a \<open>string option\<close>.
\<close>

datatype sql_value = SqlNull | SqlInt int | SqlText string

type_synonym row = "sql_value list"

text \<open>
  A compiled query: the names of its result columns, the number of its bound
  parameters, and the rows it yields for given parameter values.
\<close>

record prepared =
  p_columns :: "string list"
  p_nparams :: nat
  p_run :: "sql_value list \<Rightarrow> row list"

text \<open>
  A statement handle (\<open>sqlite3_stmt\<close>): the compiled query, the current parameter
  values (all NULL after prepare; kept across reset), the rows still to be stepped
  over (\<open>None\<close>: the statement is reset), and the current row.
\<close>

record sqlite3_stmt =
  st_prep :: prepared
  st_bound :: "sql_value list"
  st_pending :: "row list option"
  st_row :: "row option"

text \<open>
  The database connection: \<open>sqlite3_prepare_v2\<close> maps an SQL text to an error message
  or a compiled query, \<open>sqlite3_declare_vtab\<close> maps a CREATE TABLE text to a result
  code.
\<close>

record database =
  db_prepare :: "string \<Rightarrow> string + prepared"
  db_declare_vtab :: "string \<Rightarrow> int"

definition SQLITE_OK :: int where "SQLITE_OK = 0"
definition SQLITE_ERROR :: int where "SQLITE_ERROR = 1"
definition SQLITE_MISUSE :: int where "SQLITE_MISUSE = 21"
definition SQLITE_ROW :: int where "SQLITE_ROW = 100"
definition SQLITE_DONE :: int where "SQLITE_DONE = 101"

definition new_stmt :: "prepared \<Rightarrow> sqlite3_stmt" where
  "new_stmt p =
     \<lparr>st_prep = p, st_bound = replicate (p_nparams p) SqlNull,
      st_pending = None, st_row = None\<rparr>"

definition sqlite3_prepare_v2 :: "database \<Rightarrow> string \<Rightarrow> string + sqlite3_stmt" where
  "sqlite3_prepare_v2 db sql = map_sum id new_stmt (db_prepare db sql)"

text \<open>
  \<open>sqlite3_bind_value(stmt, idx, v)\<close>: parameter indexes start at 1; an index out of
  range (SQLITE\_RANGE) or a statement that is being stepped (SQLITE\_MISUSE) leaves
  the statement as it is.  pivot\_vtab.c never reads the result code.
\<close>

definition sqlite3_bind_value :: "sqlite3_stmt \<Rightarrow> int \<Rightarrow> sql_value \<Rightarrow> sqlite3_stmt" where
  "sqlite3_bind_value s idx v =
     (if st_pending s = None \<and> 1 \<le> idx \<and> idx \<le> int (length (st_bound s))
      then s\<lparr>st_bound := (st_bound s)[nat (idx - 1) := v]\<rparr>
      else s)"

text \<open>
  \<open>sqlite3_step\<close>: a reset statement runs its query with the current parameter
  values; each step moves to the next row (SQLITE\_ROW) or, when none is left,
  reports SQLITE\_DONE and leaves the statement reset.
\<close>

definition sqlite3_step :: "sqlite3_stmt \<Rightarrow> int \<times> sqlite3_stmt" where
  "sqlite3_step s =
     (case (case st_pending s of None \<Rightarrow> p_run (st_prep s) (st_bound s) | Some rs \<Rightarrow> rs) of
        [] \<Rightarrow> (SQLITE_DONE, s\<lparr>st_pending := None, st_row := None\<rparr>)
      | r # rs \<Rightarrow> (SQLITE_ROW, s\<lparr>st_pending := Some rs, st_row := Some r\<rparr>))"

definition sqlite3_reset :: "sqlite3_stmt \<Rightarrow> sqlite3_stmt" where
  "sqlite3_reset s = s\<lparr>st_pending := None, st_row := None\<rparr>"

text \<open>
  \<open>sqlite3_column_value(stmt, i)\<close>: the value of column \<open>i\<close> of the current row; NULL
  when there is no current row or no such column.
\<close>

definition sqlite3_column_value :: "sqlite3_stmt \<Rightarrow> int \<Rightarrow> sql_value" where
  "sqlite3_column_value s i =
     (case st_row s of
        None \<Rightarrow> SqlNull
      | Some r \<Rightarrow> if 0 \<le> i \<and> i < int (length r) then r ! nat i else SqlNull)"

definition sqlite3_column_count :: "sqlite3_stmt \<Rightarrow> int" where
  "sqlite3_column_count s = int (length (p_columns (st_prep s)))"

definition sqlite3_bind_parameter_count :: "sqlite3_stmt \<Rightarrow> int" where
  "sqlite3_bind_parameter_count s = int (p_nparams (st_prep s))"

subsection \<open>Text of a value\<close>

fun dec_nat :: "nat \<Rightarrow> string" where
  "dec_nat n =
     (if n < 10 then [''0123456789'' ! n]
      else dec_nat (n div 10) @ [''0123456789'' ! (n mod 10)])"

declare dec_nat.simps [simp del]

definition dec_int :: "int \<Rightarrow> string" where
  "dec_int i = (if i < 0 then CHR ''-'' # dec_nat (nat (- i)) else dec_nat (nat i))"

text \<open>\<open>sqlite3_column_text\<close>: the null pointer for NULL, the decimal text of an integer.\<close>

fun value_text :: "sql_value \<Rightarrow> string option" where
  "value_text SqlNull = None"
| "value_text (SqlInt i) = Some (dec_int i)"
| "value_text (SqlText s) = Some s"

text \<open>
  The formatter's \<open>%w\<close> doubles every double-quote character of its argument and prints
  a null pointer as \<open>(NULL)\<close>; \<open>%s\<close> prints a null pointer as the empty string.
\<close>

definition dquote :: char where "dquote = CHR 0x22"
definition newline :: char where "newline = CHR 0x0A"

definition fmt_w :: "string option \<Rightarrow> string" where
  "fmt_w z =
     (case z of
        None \<Rightarrow> ''(NULL)''
      | Some s \<Rightarrow> concat (map (\<lambda>c. if c = dquote then [dquote, dquote] else [c]) s))"

definition fmt_s :: "string option \<Rightarrow> string" where
  "fmt_s z = (case z of None \<Rightarrow> [] | Some s \<Rightarrow> s)"

text \<open>\<open>"\"%w\""\<close>: an identifier in double quotes.\<close>

definition quote_ident :: "string option \<Rightarrow> string" where
  "quote_ident z = [dquote] @ fmt_w z @ [dquote]"

subsection \<open>get\_table\<close>

text \<open>
  \<open>sqlite3_get_table\<close> runs a query and returns its result as one array of strings:
  first the \<open>nCol\<close> column names, then the \<open>nRow\<close> result rows, \<open>nCol\<close> cells each,
  a NULL value as the null pointer.  A query without result rows gives an empty array
  and both counts 0.
\<close>

record table =
  azData :: "string option list"
  nRow :: int
  nCol :: int

definition sqlite3_get_table :: "database \<Rightarrow> string \<Rightarrow> string + table" where
  "sqlite3_get_table db sql =
     (case db_prepare db sql of
        Inl msg \<Rightarrow> Inl msg
      | Inr p \<Rightarrow>
          (let rows = p_run p (replicate (p_nparams p) SqlNull)
           in if rows = [] then Inr \<lparr>azData = [], nRow = 0, nCol = 0\<rparr>
              else Inr \<lparr>azData = map Some (p_columns p) @ concat (map (map value_text) rows),
                        nRow = int (length rows),
                        nCol = int (length (p_columns p))\<rparr>))"

text \<open>
  \<open>strcmp\<close> reads both strings: on a null pointer, or on a cell outside the array, its
  behaviour is undefined (\<open>None\<close>).  \<open>sqlite3_stricmp\<close> compares without regard to the
  case of ASCII letters and accepts null pointers: two null pointers are equal, a null
  pointer and a string are not.
\<close>

definition az_cell :: "string option list \<Rightarrow> int \<Rightarrow> string option" where
  "az_cell az k = (if 0 \<le> k \<and> k < int (length az) then az ! nat k else None)"

definition strcmp_eq :: "string option \<Rightarrow> string option \<Rightarrow> bool option" where
  "strcmp_eq a b =
     (case a of None \<Rightarrow> None
      | Some x \<Rightarrow> (case b of None \<Rightarrow> None | Some y \<Rightarrow> Some (x = y)))"

definition to_lower :: "char \<Rightarrow> char" where
  "to_lower c =
     (if (65::nat) \<le> of_char c \<and> of_char c \<le> (90::nat)
      then char_of (of_char c + (32::nat)) else c)"

definition sqlite3_stricmp_eq :: "string option \<Rightarrow> string option \<Rightarrow> bool" where
  "sqlite3_stricmp_eq a b =
     (case a of
        None \<Rightarrow> b = None
      | Some x \<Rightarrow> (case b of None \<Rightarrow> False | Some y \<Rightarrow> map to_lower x = map to_lower y))"

section \<open>The virtual table: pivotConnect\<close>

record pivot_vtab =
  db :: database
  nRow_key :: int
  nRow_cols :: int
  nCol_key :: int
  col_stmt :: "sqlite3_stmt list"
  key_sql_full_table_scan :: string
  key_sql_col_names :: "string list"

text \<open>
  The ways in which pivotConnect gives up through PIVOT\_VTAB\_CONNECT\_ERROR.  That
  macro finalizes the statements, frees the strings, the column statements and the
  pivot\_vtab object itself, and returns SQLITE\_ERROR: no table is left.
\<close>

datatype connect_error =
    Key_query_prepare_error string
  | Pivot_query_prepare_error string
  | Unexpected_bound_parameters
  | Column_query_prepare_error string
  | Column_query_column_count int
  | Get_table_error string
  | Duplicate_column_key "string option"
  | Duplicate_column_name "string option"

text \<open>The message stored in \<open>*pzErr\<close>.\<close>

fun connect_errmsg :: "connect_error \<Rightarrow> string" where
  "connect_errmsg (Key_query_prepare_error m) = ''Pivot table key query prepare error - '' @ m"
| "connect_errmsg (Pivot_query_prepare_error m) = ''Pivot query prepare error - '' @ m"
| "connect_errmsg Unexpected_bound_parameters =
     ''Pivot table key query error - Unexpected number of bound parameters.''"
| "connect_errmsg (Column_query_prepare_error m) =
     ''Pivot table column definition query prepare error - '' @ m"
| "connect_errmsg (Column_query_column_count n) =
     ''Pivot table column definition query expects 2 result column. Query contains ''
       @ dec_int n @ '' columns.''"
| "connect_errmsg (Get_table_error m) = m"
| "connect_errmsg (Duplicate_column_key k) =
     ''Pivot table column keys must be unique. Duplicate column key '' @ [dquote] @ fmt_s k
       @ [dquote] @ ''.''"
| "connect_errmsg (Duplicate_column_name n) =
     ''Pivot table column names must be unique. Duplicate column '' @ [dquote] @ fmt_s n
       @ [dquote] @ ''.''"

text \<open>
  The outcome of pivotConnect: an error as above; undefined behaviour (\<open>strcmp\<close> on a
  null pointer); or the end of the function, with the result code of
  \<open>sqlite3_declare_vtab\<close>, the pivot\_vtab object and the CREATE TABLE text that was
  declared.  The table is created when that result code is SQLITE\_OK.
\<close>

datatype connect_result =
    Connect_error connect_error
  | Connect_undefined
  | Connected int pivot_vtab string

subsection \<open>The uniqueness check on the column definition rows\<close>

datatype unique_check = Unique | Violation connect_error | Check_undefined

text \<open>The inner loop \<open>for( j=i+1; j<nRow; j++ )\<close>, from \<open>j\<close> on.\<close>

function unique_inner :: "table \<Rightarrow> int \<Rightarrow> int \<Rightarrow> unique_check" where
  "unique_inner t i j =
     (if j < nRow t then
        (case strcmp_eq (az_cell (azData t) (i * nCol t)) (az_cell (azData t) (j * nCol t)) of
           None \<Rightarrow> Check_undefined
         | Some True \<Rightarrow> Violation (Duplicate_column_key (az_cell (azData t) (i * nCol t)))
         | Some False \<Rightarrow>
             if sqlite3_stricmp_eq (az_cell (azData t) (i * nCol t + 1))
                  (az_cell (azData t) (j * nCol t + 1))
             then Violation (Duplicate_column_name (az_cell (azData t) (i * nCol t + 1)))
             else unique_inner t i (j + 1))
      else Unique)"
  by pat_completeness auto
termination
  by (relation "measure (\<lambda>(t, i, j). nat (nRow t - j))") auto

declare unique_inner.simps [simp del]

text \<open>The outer loop \<open>for( i=1; i<nRow-1; i++ )\<close>, from \<open>i\<close> on.\<close>

function unique_outer :: "table \<Rightarrow> int \<Rightarrow> unique_check" where
  "unique_outer t i =
     (if i < nRow t - 1 then
        (case unique_inner t i (i + 1) of
           Unique \<Rightarrow> unique_outer t (i + 1)
         | Violation e \<Rightarrow> Violation e
         | Check_undefined \<Rightarrow> Check_undefined)
      else Unique)"
  by pat_completeness auto
termination
  by (relation "measure (\<lambda>(t, i). nat (nRow t - i))") auto

declare unique_outer.simps [simp del]

definition validate_unique :: "table \<Rightarrow> unique_check" where
  "validate_unique t = (if nRow t > 1 then unique_outer t 1 else Unique)"

subsection \<open>The schema text and the column statements\<close>

text \<open>
  The loop over the key query's columns, from column \<open>i\<close> on: each name is kept
  quoted in \<open>key_sql_col_names\<close> and appended to the CREATE TABLE text, after a comma
  unless it is column 0.
\<close>

fun append_key_columns :: "nat \<Rightarrow> string list \<Rightarrow> string \<Rightarrow> string" where
  "append_key_columns i [] sql = sql"
| "append_key_columns i (n # ns) sql =
     append_key_columns (Suc i) ns
       ((if i > 0 then sql @ '','' else sql) @ quote_ident (Some n))"

definition row_value :: "row \<Rightarrow> nat \<Rightarrow> sql_value" where
  "row_value r i = (if i < length r then r ! i else SqlNull)"

text \<open>
  The loop \<open>while( sqlite3_step(stmt_col_query)==SQLITE_ROW )\<close> over the rows of the
  column definition query.  For each row: one more column statement, prepared from the
  pivot query and with parameter \<open>nRow_key+1\<close> bound to the row's column 0, and one more
  column in the CREATE TABLE text, named by the text of the row's column 1.  (The loop
  prepares the pivot query text again for each row; the connection \<open>db\<close> is a fixed
  function here, so this is the compiled query \<open>pq\<close> that the first preparation gave.)
\<close>

fun build_columns ::
  "prepared \<Rightarrow> int \<Rightarrow> row list \<Rightarrow> int \<times> sqlite3_stmt list \<times> string \<Rightarrow> int \<times> sqlite3_stmt list \<times> string"
where
  "build_columns pq nkey [] acc = acc"
| "build_columns pq nkey (r # rs) (n, stmts, sql) =
     build_columns pq nkey rs
       (n + 1,
        stmts @ [sqlite3_bind_value (new_stmt pq) (nkey + 1) (row_value r 0)],
        sql @ '','' @ quote_ident (value_text (row_value r 1)))"

definition select_from :: "string \<Rightarrow> string" where
  "select_from arg = ''SELECT * FROM '' @ [newline] @ arg"

text \<open>
  pivotConnect.  \<open>a3\<close>, \<open>a4\<close> and \<open>a5\<close> are \<open>argv[3]\<close>, \<open>argv[4]\<close> and \<open>argv[5]\<close>: the
  key query, the column definition query and the pivot query.
\<close>

definition pivotConnect :: "database \<Rightarrow> string \<Rightarrow> string \<Rightarrow> string \<Rightarrow> connect_result" where
  "pivotConnect d a3 a4 a5 =
     (case db_prepare d (select_from a3) of
        Inl msg \<Rightarrow> Connect_error (Key_query_prepare_error msg)
      | Inr kq \<Rightarrow>
          (let cols = int (length (p_columns kq));
               names = map (\<lambda>n. quote_ident (Some n)) (p_columns kq);
               sql1 = append_key_columns 0 (p_columns kq) ''CREATE TABLE x(''
           in
           (case db_prepare d (select_from a5) of
              Inl msg \<Rightarrow> Connect_error (Pivot_query_prepare_error msg)
            | Inr pq \<Rightarrow>
                (let nkey = int (p_nparams pq) - 1
                 in
                 if nkey > cols then Connect_error Unexpected_bound_parameters
                 else
                   (case db_prepare d (select_from a4) of
                      Inl msg \<Rightarrow> Connect_error (Column_query_prepare_error msg)
                    | Inr cq \<Rightarrow>
                        if int (length (p_columns cq)) \<noteq> 2
                        then Connect_error (Column_query_column_count (int (length (p_columns cq))))
                        else
                          (case sqlite3_get_table d (select_from a4) of
                             Inl msg \<Rightarrow> Connect_error (Get_table_error msg)
                           | Inr t \<Rightarrow>
                               (case validate_unique t of
                                  Violation e \<Rightarrow> Connect_error e
                                | Check_undefined \<Rightarrow> Connect_undefined
                                | Unique \<Rightarrow>
                                    (case build_columns pq nkey
                                            (p_run cq (replicate (p_nparams cq) SqlNull))
                                            (0, [], sql1) of
                                       (n, stmts, sql2) \<Rightarrow>
                                         Connected (db_declare_vtab d (sql2 @ '')''))
                                           \<lparr>db = d, nRow_key = nkey, nRow_cols = cols,
                                            nCol_key = n, col_stmt = stmts,
                                            key_sql_full_table_scan = select_from a3,
                                            key_sql_col_names = names\<rparr>
                                           (sql2 @ '')'')))))))))"

section \<open>Faults\<close>

text \<open>
  Where the C code reads or writes outside an array, through a null pointer or through
  a pointer it has freed, its behaviour is undefined.  The model returns the fault
  instead of a result.  \<open>Out_of_fuel\<close> belongs to the scan driver below.
\<close>

datatype fault = Out_of_bounds | Null_deref | Use_after_free | Double_free | Out_of_fuel

text \<open>A \<open>for\<close> loop over the indexes \<open>is\<close>, stopping at the first fault.\<close>

fun for_index :: "('s \<Rightarrow> nat \<Rightarrow> fault + 's) \<Rightarrow> nat list \<Rightarrow> 's \<Rightarrow> fault + 's" where
  "for_index body [] s = Inr s"
| "for_index body (i # is) s =
     (case body s i of Inl e \<Rightarrow> Inl e | Inr s' \<Rightarrow> for_index body is s')"

section \<open>The planner: pivotBestIndex\<close>

text \<open>
  \<open>sqlite3_index_info\<close> and its arrays.  \<open>nConstraint\<close> and \<open>nOrderBy\<close> are the lengths
  of \<open>aConstraint\<close> and \<open>aOrderBy\<close>.  \<open>usable\<close> and \<open>desc\<close> are bytes that the code only
  tests for being zero; they are booleans here.  \<open>op\<close> is an unsigned byte.
\<close>

record sqlite3_index_constraint =
  c_iColumn :: int
  c_op :: nat
  c_usable :: bool

record sqlite3_index_orderby =
  o_iColumn :: int
  o_desc :: bool

record sqlite3_index_constraint_usage =
  u_argvIndex :: int
  u_omit :: nat

record sqlite3_index_info =
  aConstraint :: "sqlite3_index_constraint list"
  aOrderBy :: "sqlite3_index_orderby list"
  aConstraintUsage :: "sqlite3_index_constraint_usage list"
  idxNum :: int
  idxStr :: "string option"
  needToFreeIdxStr :: int
  orderByConsumed :: int
  estimatedCost :: real
  estimatedRows :: int

text \<open>The operator codes of sqlite3.h.\<close>

definition SQLITE_INDEX_CONSTRAINT_EQ :: nat where "SQLITE_INDEX_CONSTRAINT_EQ = 2"
definition SQLITE_INDEX_CONSTRAINT_GT :: nat where "SQLITE_INDEX_CONSTRAINT_GT = 4"
definition SQLITE_INDEX_CONSTRAINT_LE :: nat where "SQLITE_INDEX_CONSTRAINT_LE = 8"
definition SQLITE_INDEX_CONSTRAINT_LT :: nat where "SQLITE_INDEX_CONSTRAINT_LT = 16"
definition SQLITE_INDEX_CONSTRAINT_GE :: nat where "SQLITE_INDEX_CONSTRAINT_GE = 32"
definition SQLITE_INDEX_CONSTRAINT_MATCH :: nat where "SQLITE_INDEX_CONSTRAINT_MATCH = 64"
definition SQLITE_INDEX_CONSTRAINT_LIKE :: nat where "SQLITE_INDEX_CONSTRAINT_LIKE = 65"
definition SQLITE_INDEX_CONSTRAINT_GLOB :: nat where "SQLITE_INDEX_CONSTRAINT_GLOB = 66"
definition SQLITE_INDEX_CONSTRAINT_REGEXP :: nat where "SQLITE_INDEX_CONSTRAINT_REGEXP = 67"
definition SQLITE_INDEX_CONSTRAINT_NE :: nat where "SQLITE_INDEX_CONSTRAINT_NE = 68"
definition SQLITE_INDEX_CONSTRAINT_ISNOT :: nat where "SQLITE_INDEX_CONSTRAINT_ISNOT = 69"
definition SQLITE_INDEX_CONSTRAINT_ISNOTNULL :: nat where "SQLITE_INDEX_CONSTRAINT_ISNOTNULL = 70"
definition SQLITE_INDEX_CONSTRAINT_ISNULL :: nat where "SQLITE_INDEX_CONSTRAINT_ISNULL = 71"
definition SQLITE_INDEX_CONSTRAINT_IS :: nat where "SQLITE_INDEX_CONSTRAINT_IS = 72"
definition SQLITE_INDEX_CONSTRAINT_LIMIT :: nat where "SQLITE_INDEX_CONSTRAINT_LIMIT = 73"
definition SQLITE_INDEX_CONSTRAINT_OFFSET :: nat where "SQLITE_INDEX_CONSTRAINT_OFFSET = 74"
definition SQLITE_INDEX_CONSTRAINT_FUNCTION :: nat where "SQLITE_INDEX_CONSTRAINT_FUNCTION = 150"

text \<open>
  The \<open>switch( pConstraint->op )\<close>: the SQL operator of an operator code, \<open>None\<close> for
  \<open>op = 0\<close> (SQLITE\_INDEX\_CONSTRAINT\_FUNCTION and every other code).
\<close>

definition op_text :: "nat \<Rightarrow> string option" where
  "op_text opc =
     (if opc = SQLITE_INDEX_CONSTRAINT_EQ then Some ''=''
      else if opc = SQLITE_INDEX_CONSTRAINT_LT then Some ''<''
      else if opc = SQLITE_INDEX_CONSTRAINT_LE then Some ''<=''
      else if opc = SQLITE_INDEX_CONSTRAINT_GT then Some ''>''
      else if opc = SQLITE_INDEX_CONSTRAINT_GE then Some ''>=''
      else if opc = SQLITE_INDEX_CONSTRAINT_MATCH then Some ''MATCH''
      else if opc = SQLITE_INDEX_CONSTRAINT_LIKE then Some ''LIKE''
      else if opc = SQLITE_INDEX_CONSTRAINT_GLOB then Some ''GLOB''
      else if opc = SQLITE_INDEX_CONSTRAINT_REGEXP then Some ''REGEXP''
      else if opc = SQLITE_INDEX_CONSTRAINT_NE then Some ''<>''
      else if opc = SQLITE_INDEX_CONSTRAINT_ISNOT \<or> opc = SQLITE_INDEX_CONSTRAINT_ISNOTNULL
        then Some ''IS NOT''
      else if opc = SQLITE_INDEX_CONSTRAINT_ISNULL \<or> opc = SQLITE_INDEX_CONSTRAINT_IS
        then Some ''IS''
      else None)"

text \<open>
  \<open>tab->key_sql_col_names[i]\<close>.  The array has \<open>nRow_cols\<close> entries; an index outside it
  is a fault.
\<close>

definition col_name :: "pivot_vtab \<Rightarrow> int \<Rightarrow> fault + string" where
  "col_name tab i =
     (if 0 \<le> i \<and> i < int (length (key_sql_col_names tab))
      then Inr (key_sql_col_names tab ! nat i)
      else Inl Out_of_bounds)"

text \<open>The variables of pivotBestIndex while it runs.\<close>

record plan_state =
  ps_tab :: pivot_vtab
  ps_info :: sqlite3_index_info
  key_sql_filtered :: string
  argvIndex :: int
  orderIdx :: int

text \<open>
  \<open>pIdxInfo->aConstraintUsage[i]\<close> is written in place; the engine allocates one entry
  per constraint, and an index outside the array is a fault.
\<close>

definition set_usage ::
  "plan_state \<Rightarrow> nat \<Rightarrow> (sqlite3_index_constraint_usage \<Rightarrow> sqlite3_index_constraint_usage)
     \<Rightarrow> fault + plan_state"
where
  "set_usage s i f =
     (if i < length (aConstraintUsage (ps_info s))
      then Inr (s\<lparr>ps_info := (ps_info s)
                    \<lparr>aConstraintUsage :=
                       (aConstraintUsage (ps_info s))[i := f (aConstraintUsage (ps_info s) ! i)]\<rparr>\<rparr>)
      else Inl Out_of_bounds)"

text \<open>The body of the loop over the constraints, for constraint \<open>i\<close>.\<close>

definition constraint_step :: "plan_state \<Rightarrow> nat \<Rightarrow> fault + plan_state" where
  "constraint_step s i =
     (let c = aConstraint (ps_info s) ! i in
      if \<not> c_usable c then Inr s
      else if \<not> (c_iColumn c < nRow_cols (ps_tab s)) then Inr s
      else
        (case op_text (c_op c) of
           None \<Rightarrow> set_usage s i (\<lambda>u. u\<lparr>u_omit := 0\<rparr>)
         | Some opr \<Rightarrow>
             (case col_name (ps_tab s) (c_iColumn c) of
                Inl e \<Rightarrow> Inl e
              | Inr name \<Rightarrow>
                  (case set_usage
                          (s\<lparr>key_sql_filtered :=
                               key_sql_filtered s
                               @ (if argvIndex s = 1 then [newline] @ '' WHERE '' else '' AND '')
                               @ name @ '' '' @ opr @ '' ?''\<rparr>)
                          i (\<lambda>u. u\<lparr>u_argvIndex := argvIndex s, u_omit := 1\<rparr>) of
                     Inl e \<Rightarrow> Inl e
                   | Inr s' \<Rightarrow> Inr (s'\<lparr>argvIndex := argvIndex s + 1\<rparr>)))))"

text \<open>The body of the loop over the ORDER BY terms, for term \<open>i\<close>.\<close>

definition orderby_step :: "plan_state \<Rightarrow> nat \<Rightarrow> fault + plan_state" where
  "orderby_step s i =
     (let ob = aOrderBy (ps_info s) ! i in
      if \<not> (o_iColumn ob < nRow_cols (ps_tab s)) then Inr s
      else
        (case col_name (ps_tab s) (o_iColumn ob) of
           Inl e \<Rightarrow> Inl e
         | Inr name \<Rightarrow>
             Inr (s\<lparr>key_sql_filtered :=
                      key_sql_filtered s
                      @ (if orderIdx s = 0 then [newline] @ '' ORDER BY '' else '', '')
                      @ name @ '' '' @ (if o_desc ob then ''DESC'' else []),
                    ps_info := (ps_info s)\<lparr>orderByConsumed := 1\<rparr>,
                    orderIdx := orderIdx s + 1\<rparr>)))"

text \<open>
  pivotBestIndex.  It returns the table object and the \<open>sqlite3_index_info\<close> as it
  leaves them.  \<open>estimatedCost\<close> is the C \<open>double\<close> nearest to the quotient
  \<open>2147483647 / argvIndex\<close>; the model keeps the quotient itself.
\<close>

definition pivotBestIndex ::
  "pivot_vtab \<Rightarrow> sqlite3_index_info \<Rightarrow> fault + (pivot_vtab \<times> sqlite3_index_info)"
where
  "pivotBestIndex tab pIdxInfo =
     (case for_index constraint_step [0..<length (aConstraint pIdxInfo)]
             \<lparr>ps_tab = tab, ps_info = pIdxInfo,
              key_sql_filtered = key_sql_full_table_scan tab, argvIndex = 1, orderIdx = 0\<rparr> of
        Inl e \<Rightarrow> Inl e
      | Inr s1 \<Rightarrow>
          (case for_index orderby_step [0..<length (aOrderBy pIdxInfo)] s1 of
             Inl e \<Rightarrow> Inl e
           | Inr s2 \<Rightarrow>
               Inr (ps_tab s2,
                    (ps_info s2)
                      \<lparr>idxNum := 0,
                       estimatedCost := 2147483647 / real_of_int (argvIndex s2),
                       estimatedRows := 10,
                       idxStr := Some (key_sql_filtered s2),
                       needToFreeIdxStr := 1\<rparr>)))"

section \<open>The cursor\<close>

text \<open>
  \<open>cur->pivot_key\<close> is the null pointer, or an array of pointers to values (each
  possibly null), or, after \<open>sqlite3_free\<close> without resetting the field, a dangling
  pointer.
\<close>

datatype key_array = Key_null | Key_array "sql_value option list" | Key_freed

record pivot_cursor =
  iRowid :: int
  stmt :: "sqlite3_stmt option"
  rc :: int
  pivot_key :: key_array

text \<open>pivotOpen: a cursor filled with zero bytes.\<close>

definition pivotOpen :: pivot_cursor where
  "pivotOpen = \<lparr>iRowid = 0, stmt = None, rc = 0, pivot_key = Key_null\<rparr>"

text \<open>The statement interface on a handle that may be the null pointer.\<close>

definition step_handle :: "sqlite3_stmt option \<Rightarrow> int \<times> sqlite3_stmt option" where
  "step_handle h =
     (case h of
        None \<Rightarrow> (SQLITE_MISUSE, None)
      | Some s \<Rightarrow> (case sqlite3_step s of (r, s') \<Rightarrow> (r, Some s')))"

definition column_value_handle :: "sqlite3_stmt option \<Rightarrow> int \<Rightarrow> sql_value" where
  "column_value_handle h i = (case h of None \<Rightarrow> SqlNull | Some s \<Rightarrow> sqlite3_column_value s i)"

text \<open>
  \<open>for( i=0; i<tab->nRow_cols; i++ ) cur->pivot_key[i] = sqlite3_value_dup(...)\<close>:
  every entry of the array (which was allocated with \<open>nRow_cols\<close> entries) is set to a
  copy of the current row's column \<open>i\<close>.
\<close>

definition copy_row_key :: "pivot_vtab \<Rightarrow> sqlite3_stmt option \<Rightarrow> sql_value option list" where
  "copy_row_key tab h =
     map (\<lambda>i. Some (column_value_handle h (int i))) [0..<nat (nRow_cols tab)]"

text \<open>
  \<open>sqlite3_malloc(tab->nRow_cols*sizeof(sqlite3_value*))\<close>: the null pointer for a size
  that is not positive.  The entries of a fresh array are not initialised; pivotFilter
  writes all of them before any is read.
\<close>

definition malloc_keys :: "pivot_vtab \<Rightarrow> key_array" where
  "malloc_keys tab =
     (if nRow_cols tab \<le> 0 then Key_null else Key_array (replicate (nat (nRow_cols tab)) None))"

fun bind_all :: "sqlite3_stmt \<Rightarrow> int \<Rightarrow> sql_value list \<Rightarrow> sqlite3_stmt" where
  "bind_all s i [] = s"
| "bind_all s i (v # vs) = bind_all (sqlite3_bind_value s (i + 1) v) (i + 1) vs"

text \<open>
  pivotFilter.  \<open>sqlite3_prepare_v2\<close> leaves the null pointer in \<open>cur->stmt\<close> when it
  fails; its result code is not read.
\<close>

definition pivotFilter ::
  "pivot_vtab \<Rightarrow> pivot_cursor \<Rightarrow> string \<Rightarrow> sql_value list \<Rightarrow> pivot_cursor"
where
  "pivotFilter tab cur zIdx argv =
     (let k0 = malloc_keys tab;
          h = (case sqlite3_prepare_v2 (db tab) zIdx of
                 Inl msg \<Rightarrow> None
               | Inr s \<Rightarrow> Some (bind_all s 0 argv))
      in case step_handle h of
           (r, h') \<Rightarrow>
             cur\<lparr>iRowid := 1, stmt := h', rc := r,
                 pivot_key := (if r = SQLITE_DONE then Key_null
                               else (case k0 of
                                       Key_array ks \<Rightarrow> Key_array (copy_row_key tab h')
                                     | k \<Rightarrow> k))\<rparr>)"

text \<open>
  pivotNext.  The values of the current row key are freed and their pointers set to
  null; if the statement has another row, the array is filled again.
\<close>

definition pivotNext :: "pivot_vtab \<Rightarrow> pivot_cursor \<Rightarrow> fault + pivot_cursor" where
  "pivotNext tab cur =
     (case (case pivot_key cur of
              Key_null \<Rightarrow> Inr Key_null
            | Key_array ks \<Rightarrow> Inr (Key_array (replicate (length ks) None))
            | Key_freed \<Rightarrow> if nRow_cols tab \<le> 0 then Inr Key_freed else Inl Use_after_free) of
        Inl e \<Rightarrow> Inl e
      | Inr k1 \<Rightarrow>
          (case step_handle (stmt cur) of
             (r, h') \<Rightarrow>
               if r \<noteq> SQLITE_DONE \<and> nRow_cols tab > 0 then
                 (case k1 of
                    Key_null \<Rightarrow> Inl Null_deref
                  | Key_freed \<Rightarrow> Inl Use_after_free
                  | Key_array ks \<Rightarrow>
                      Inr (cur\<lparr>pivot_key := Key_array (copy_row_key tab h'), stmt := h', rc := r,
                               iRowid := iRowid cur + 1\<rparr>))
               else Inr (cur\<lparr>pivot_key := k1, stmt := h', rc := r, iRowid := iRowid cur + 1\<rparr>)))"

text \<open>
  pivotEof.  At SQLITE\_DONE the key array is freed (the field keeps the pointer) and
  the statement is finalized and the field set to the null pointer.
\<close>

definition pivotEof :: "pivot_vtab \<Rightarrow> pivot_cursor \<Rightarrow> fault + (bool \<times> pivot_cursor)" where
  "pivotEof tab cur =
     (if rc cur = SQLITE_DONE then
        (case pivot_key cur of
           Key_null \<Rightarrow> Inr (True, cur\<lparr>stmt := None\<rparr>)
         | Key_array ks \<Rightarrow> Inr (True, cur\<lparr>pivot_key := Key_freed, stmt := None\<rparr>)
         | Key_freed \<Rightarrow> Inl Double_free)
      else Inr (False, cur))"

text \<open>\<open>cur->pivot_key[i]\<close>, read in order to pass the value on.\<close>

definition key_value :: "pivot_cursor \<Rightarrow> int \<Rightarrow> fault + sql_value" where
  "key_value cur i =
     (case pivot_key cur of
        Key_null \<Rightarrow> Inl Null_deref
      | Key_freed \<Rightarrow> Inl Use_after_free
      | Key_array ks \<Rightarrow>
          if 0 \<le> i \<and> i < int (length ks)
          then (case ks ! nat i of None \<Rightarrow> Inl Null_deref | Some v \<Rightarrow> Inr v)
          else Inl Out_of_bounds)"

text \<open>
  The loop \<open>for( i=0; i<tab->nRow_key; i++ ) sqlite3_bind_value(stmt, i+1, cur->pivot_key[i])\<close>.
\<close>

definition bind_key_step :: "pivot_cursor \<Rightarrow> sqlite3_stmt \<Rightarrow> nat \<Rightarrow> fault + sqlite3_stmt" where
  "bind_key_step cur s i =
     (case key_value cur (int i) of
        Inl e \<Rightarrow> Inl e
      | Inr v \<Rightarrow> Inr (sqlite3_bind_value s (int i + 1) v))"

text \<open>
  pivotColumn.  It returns the table object (the column statement it used has new
  parameter values) and the value handed to the engine as the result.
\<close>

definition pivotColumn ::
  "pivot_vtab \<Rightarrow> pivot_cursor \<Rightarrow> int \<Rightarrow> fault + (pivot_vtab \<times> sql_value)"
where
  "pivotColumn tab cur i =
     (if i < nRow_cols tab then
        (case key_value cur i of Inl e \<Rightarrow> Inl e | Inr v \<Rightarrow> Inr (tab, v))
      else if \<not> (i - nRow_cols tab < int (length (col_stmt tab))) then Inl Out_of_bounds
      else
        (let k = nat (i - nRow_cols tab) in
         case for_index (bind_key_step cur) [0..<nat (nRow_key tab)] (col_stmt tab ! k) of
           Inl e \<Rightarrow> Inl e
         | Inr s1 \<Rightarrow>
             (case sqlite3_step s1 of
                (r, s2) \<Rightarrow>
                  Inr (tab\<lparr>col_stmt := (col_stmt tab)[k := sqlite3_reset s2]\<rparr>,
                       if r = SQLITE_ROW then sqlite3_column_value s2 0 else SqlNull))))"

text \<open>pivotRowid.\<close>

definition pivotRowid :: "pivot_cursor \<Rightarrow> int" where
  "pivotRowid cur = iRowid cur"

text \<open>
  pivotClose.  The key array is freed when the field is not the null pointer: after
  pivotEof has freed the array and kept the pointer, pivotClose reads the freed array
  and frees it again.
\<close>

definition pivotClose :: "pivot_vtab \<Rightarrow> pivot_cursor \<Rightarrow> fault + unit" where
  "pivotClose tab cur =
     (case pivot_key cur of
        Key_null \<Rightarrow> Inr ()
      | Key_array ks \<Rightarrow> Inr ()
      | Key_freed \<Rightarrow> if 0 < nRow_cols tab then Inl Use_after_free else Inl Double_free)"

subsection \<open>The engine's scan\<close>

text \<open>
  The engine scans a virtual table by calling xBestIndex, then xFilter with the plan's
  \<open>idxStr\<close> and the values of the consumed constraints, and then, as long as xEof
  answers false, xColumn for the columns of the declared schema and xNext; when xEof
  has answered true it calls xClose.  A row is handed to the application as soon as its
  columns are read, so a scan yields the rows handed out and, beside them, how it
  ended: with a fault, or with the table object as the scan leaves it.  The loop is
  bounded by \<open>fuel\<close>: a scan that has not ended when the fuel is used up ends with
  \<open>Out_of_fuel\<close>.
\<close>

fun read_columns ::
  "pivot_vtab \<Rightarrow> pivot_cursor \<Rightarrow> int list \<Rightarrow> fault + (pivot_vtab \<times> sql_value list)"
where
  "read_columns tab cur [] = Inr (tab, [])"
| "read_columns tab cur (i # is) =
     (case pivotColumn tab cur i of
        Inl e \<Rightarrow> Inl e
      | Inr (tab1, v) \<Rightarrow>
          (case read_columns tab1 cur is of
             Inl e \<Rightarrow> Inl e
           | Inr (tab2, vs) \<Rightarrow> Inr (tab2, v # vs)))"

definition all_columns :: "pivot_vtab \<Rightarrow> int list" where
  "all_columns tab = map int [0..<nat (nRow_cols tab + nCol_key tab)]"

fun scan_loop ::
  "nat \<Rightarrow> pivot_vtab \<Rightarrow> pivot_cursor \<Rightarrow> row list \<times> (fault + pivot_vtab \<times> pivot_cursor)"
where
  "scan_loop 0 tab cur = ([], Inl Out_of_fuel)"
| "scan_loop (Suc fuel) tab cur =
     (case pivotEof tab cur of
        Inl e \<Rightarrow> ([], Inl e)
      | Inr (True, cur1) \<Rightarrow> ([], Inr (tab, cur1))
      | Inr (False, cur1) \<Rightarrow>
          (case read_columns tab cur1 (all_columns tab) of
             Inl e \<Rightarrow> ([], Inl e)
           | Inr (tab1, vs) \<Rightarrow>
               (case pivotNext tab1 cur1 of
                  Inl e \<Rightarrow> ([vs], Inl e)
                | Inr cur2 \<Rightarrow>
                    (case scan_loop fuel tab1 cur2 of
                       (rows, out) \<Rightarrow> (vs # rows, out)))))"

definition scan ::
  "nat \<Rightarrow> pivot_vtab \<Rightarrow> sqlite3_index_info \<Rightarrow> sql_value list
     \<Rightarrow> row list \<times> (fault + pivot_vtab)"
where
  "scan fuel tab pIdxInfo argv =
     (case pivotBestIndex tab pIdxInfo of
        Inl e \<Rightarrow> ([], Inl e)
      | Inr (tab1, plan) \<Rightarrow>
          (case scan_loop fuel tab1 (pivotFilter tab1 pivotOpen (fmt_s (idxStr plan)) argv) of
             (rows, Inl e) \<Rightarrow> (rows, Inl e)
           | (rows, Inr (tab2, cur)) \<Rightarrow>
               (case pivotClose tab2 cur of
                  Inl e \<Rightarrow> (rows, Inl e)
                | Inr u \<Rightarrow> (rows, Inr tab2))))"

text \<open>The request of a scan without constraints and without ORDER BY terms.\<close>

definition no_constraints :: sqlite3_index_info where
  "no_constraints =
     \<lparr>aConstraint = [], aOrderBy = [], aConstraintUsage = [], idxNum = 0, idxStr = None,
      needToFreeIdxStr = 0, orderByConsumed = 0, estimatedCost = 0, estimatedRows = 0\<rparr>"


section \<open>Reference renderings and example databases\<close>

text \<open>A column list as it stands in a CREATE TABLE text: the entries separated by commas.\<close>

definition column_list :: "string list \<Rightarrow> string" where
  "column_list cs = (case cs of [] \<Rightarrow> [] | c # cs' \<Rightarrow> c @ concat (map (\<lambda>x. '','' @ x) cs'))"

text \<open>
  The example of the README: the key query yields the rows 1, 2, 3 in its one column
  \<open>r_id\<close>; the column definition query yields (1, a), (2, b), (3, c), (4, d); the pivot
  query looks the cell of row \<open>?1\<close> and column \<open>?2\<close> up in table \<open>x\<close>.  The three
  arguments of the virtual table are abbreviated to \<open>r\<close>, \<open>c\<close> and \<open>x\<close>.
\<close>

definition readme_x :: "(int \<times> int \<times> string) list" where
  "readme_x =
     [(1, 1, ''a1''), (2, 1, ''a2''), (3, 1, ''a3''),
      (1, 2, ''b1''), (2, 2, ''b2''), (3, 2, ''b3''),
      (1, 3, ''c1''), (2, 3, ''c2''), (3, 3, ''c3''),
      (1, 4, ''d1''), (2, 4, ''d2''), (3, 4, ''d3'')]"

definition readme_kq :: prepared where
  "readme_kq = \<lparr>p_columns = [''r_id''], p_nparams = 0,
                 p_run = (\<lambda>ps. [[SqlInt 1], [SqlInt 2], [SqlInt 3]])\<rparr>"

definition readme_cq :: prepared where
  "readme_cq = \<lparr>p_columns = [''c_id'', ''name''], p_nparams = 0,
                 p_run = (\<lambda>ps. [[SqlInt 1, SqlText ''a''], [SqlInt 2, SqlText ''b''],
                                 [SqlInt 3, SqlText ''c''], [SqlInt 4, SqlText ''d'']])\<rparr>"

definition lookup_x :: "sql_value list \<Rightarrow> row list" where
  "lookup_x ps =
     (case ps of
        [SqlInt r, SqlInt c] \<Rightarrow>
          map (\<lambda>(r', c', v). [SqlText v]) (filter (\<lambda>(r', c', v). r' = r \<and> c' = c) readme_x)
      | _ \<Rightarrow> [])"

definition readme_pq :: prepared where
  "readme_pq = \<lparr>p_columns = [''val''], p_nparams = 2, p_run = lookup_x\<rparr>"

text \<open>
  The key query of the README under the constraint \<open>r_id = ?\<close>, as pivotBestIndex
  writes it.
\<close>

definition readme_eq_sql :: string where
  "readme_eq_sql = select_from ''r'' @ [newline] @ '' WHERE '' @ quote_ident (Some ''r_id'') @ '' = ?''"

definition readme_kq_eq :: prepared where
  "readme_kq_eq = \<lparr>p_columns = [''r_id''], p_nparams = 1,
                    p_run = (\<lambda>ps. filter (\<lambda>r. r = ps) [[SqlInt 1], [SqlInt 2], [SqlInt 3]])\<rparr>"

definition readme_db :: database where
  "readme_db =
     \<lparr>db_prepare = (\<lambda>sql.
        if sql = select_from ''r'' then Inr readme_kq
        else if sql = readme_eq_sql then Inr readme_kq_eq
        else if sql = select_from ''c'' then Inr readme_cq
        else if sql = select_from ''x'' then Inr readme_pq
        else Inl ''syntax error''),
      db_declare_vtab = (\<lambda>sql. SQLITE_OK)\<rparr>"

definition readme_tab :: pivot_vtab where
  "readme_tab =
     \<lparr>db = readme_db, nRow_key = 1, nRow_cols = 1, nCol_key = 4,
      col_stmt = map (\<lambda>k. \<lparr>st_prep = readme_pq, st_bound = [SqlNull, SqlInt k],
                             st_pending = None, st_row = None\<rparr>) [1, 2, 3, 4],
      key_sql_full_table_scan = select_from ''r'',
      key_sql_col_names = [quote_ident (Some ''r_id'')]\<rparr>"

text \<open>
  The same database with another column definition query \<open>k\<close>, whose two rows have the
  same column key 1 and different names.
\<close>

definition dupkey_cq :: prepared where
  "dupkey_cq = \<lparr>p_columns = [''c_id'', ''name''], p_nparams = 0,
                 p_run = (\<lambda>ps. [[SqlInt 1, SqlText ''a''], [SqlInt 1, SqlText ''b'']])\<rparr>"

text \<open>
  Column definition queries of three rows: \<open>k3\<close> repeats the key of row 1 in row 3,
  \<open>n3\<close> repeats the name of row 2 in row 3 in another case, \<open>k12\<close> repeats the key of
  row 1 in row 2.
\<close>

definition dupkey3_cq :: prepared where
  "dupkey3_cq = \<lparr>p_columns = [''c_id'', ''name''], p_nparams = 0,
                  p_run = (\<lambda>ps. [[SqlInt 1, SqlText ''a''], [SqlInt 2, SqlText ''b''],
                                  [SqlInt 1, SqlText ''c'']])\<rparr>"

definition dupname3_cq :: prepared where
  "dupname3_cq = \<lparr>p_columns = [''c_id'', ''name''], p_nparams = 0,
                   p_run = (\<lambda>ps. [[SqlInt 1, SqlText ''a''], [SqlInt 2, SqlText ''b''],
                                   [SqlInt 3, SqlText ''B'']])\<rparr>"

definition dupkey12_cq :: prepared where
  "dupkey12_cq = \<lparr>p_columns = [''c_id'', ''name''], p_nparams = 0,
                   p_run = (\<lambda>ps. [[SqlInt 1, SqlText ''a''], [SqlInt 1, SqlText ''b''],
                                   [SqlInt 3, SqlText ''c'']])\<rparr>"

definition dup_db :: database where
  "dup_db =
     \<lparr>db_prepare = (\<lambda>sql.
        if sql = select_from ''r'' then Inr readme_kq
        else if sql = select_from ''k'' then Inr dupkey_cq
        else if sql = select_from ''k3'' then Inr dupkey3_cq
        else if sql = select_from ''n3'' then Inr dupname3_cq
        else if sql = select_from ''k12'' then Inr dupkey12_cq
        else if sql = select_from ''x'' then Inr readme_pq
        else Inl ''syntax error''),
      db_declare_vtab = (\<lambda>sql. SQLITE_OK)\<rparr>"

text \<open>
  A key query \<open>w\<close> with two result columns, \<open>r_id\<close> and \<open>label\<close>, beside the pivot query
  of the README with its two parameters: one parameter for the row key, one for the
  column key.
\<close>

definition wide_kq :: prepared where
  "wide_kq = \<lparr>p_columns = [''r_id'', ''label''], p_nparams = 0,
               p_run = (\<lambda>ps. [[SqlInt 1, SqlText ''one''], [SqlInt 2, SqlText ''two'']])\<rparr>"

definition wide_db :: database where
  "wide_db =
     \<lparr>db_prepare = (\<lambda>sql.
        if sql = select_from ''w'' then Inr wide_kq
        else if sql = select_from ''c'' then Inr readme_cq
        else if sql = select_from ''x'' then Inr readme_pq
        else Inl ''syntax error''),
      db_declare_vtab = (\<lambda>sql. SQLITE_OK)\<rparr>"

definition wide_tab :: pivot_vtab where
  "wide_tab =
     \<lparr>db = wide_db, nRow_key = 1, nRow_cols = 2, nCol_key = 4,
      col_stmt = map (\<lambda>k. \<lparr>st_prep = readme_pq, st_bound = [SqlNull, SqlInt k],
                             st_pending = None, st_row = None\<rparr>) [1, 2, 3, 4],
      key_sql_full_table_scan = select_from ''w'',
      key_sql_col_names = [quote_ident (Some ''r_id''), quote_ident (Some ''label'')]\<rparr>"

text \<open>A cursor that holds the row key \<open>key\<close>.\<close>

definition cursor_on :: "row \<Rightarrow> pivot_cursor" where
  "cursor_on key = \<lparr>iRowid = 1, stmt = None, rc = SQLITE_ROW, pivot_key = Key_array (map Some key)\<rparr>"


section \<open>Reference description of a plan\<close>

text \<open>
  What the specification says a plan consists of, written down independently of the loops of
  pivotBestIndex, to be compared with what the loops compute.
\<close>

definition sep_join :: "string \<Rightarrow> string list \<Rightarrow> string" where
  "sep_join sep xs = (case xs of [] \<Rightarrow> [] | x # xs' \<Rightarrow> x @ concat (map (\<lambda>y. sep @ y) xs'))"

text \<open>
  A constraint is consumed when it is usable, its column index is below \<open>nRow_cols\<close>
  and its operator has an SQL text.
\<close>

definition spec_consumed :: "pivot_vtab \<Rightarrow> sqlite3_index_constraint \<Rightarrow> bool" where
  "spec_consumed tab c \<longleftrightarrow>
     c_usable c \<and> c_iColumn c < nRow_cols tab \<and> op_text (c_op c) \<noteq> None"

text \<open>The conjunct \<open>column operator ?\<close> of a consumed constraint.\<close>

definition spec_conjunct :: "pivot_vtab \<Rightarrow> sqlite3_index_constraint \<Rightarrow> string" where
  "spec_conjunct tab c =
     key_sql_col_names tab ! nat (c_iColumn c) @ '' '' @ fmt_s (op_text (c_op c)) @ '' ?''"

definition where_text :: "string list \<Rightarrow> string" where
  "where_text cs = (if cs = [] then [] else [newline] @ '' WHERE '' @ sep_join '' AND '' cs)"

text \<open>The WHERE clause: the conjuncts of the consumed constraints, in input order.\<close>

definition spec_where :: "pivot_vtab \<Rightarrow> sqlite3_index_constraint list \<Rightarrow> string" where
  "spec_where tab cs = where_text (map (spec_conjunct tab) (filter (spec_consumed tab) cs))"

text \<open>
  The usage reported for constraint \<open>i\<close>: a consumed constraint gets the next parameter
  slot, counted from 1 over the consumed constraints, and \<open>omit = 1\<close>; a usable
  constraint on a key column whose operator has no SQL text gets \<open>omit = 0\<close>; every
  other entry stays as the engine passed it.
\<close>

definition spec_usage ::
  "pivot_vtab \<Rightarrow> sqlite3_index_constraint list \<Rightarrow> sqlite3_index_constraint_usage list \<Rightarrow> nat
     \<Rightarrow> sqlite3_index_constraint_usage"
where
  "spec_usage tab cs us i =
     (if spec_consumed tab (cs ! i)
      then (us ! i)\<lparr>u_argvIndex := 1 + int (length (filter (spec_consumed tab) (take i cs))),
                    u_omit := 1\<rparr>
      else if c_usable (cs ! i) \<and> c_iColumn (cs ! i) < nRow_cols tab
      then (us ! i)\<lparr>u_omit := 0\<rparr>
      else us ! i)"

text \<open>An ORDER BY term is eligible when its column index is below \<open>nRow_cols\<close>.\<close>

definition spec_order_eligible :: "pivot_vtab \<Rightarrow> sqlite3_index_orderby \<Rightarrow> bool" where
  "spec_order_eligible tab ob \<longleftrightarrow> o_iColumn ob < nRow_cols tab"

definition spec_order_term :: "pivot_vtab \<Rightarrow> sqlite3_index_orderby \<Rightarrow> string" where
  "spec_order_term tab ob =
     key_sql_col_names tab ! nat (o_iColumn ob) @ '' '' @ (if o_desc ob then ''DESC'' else [])"

definition orderby_text :: "string list \<Rightarrow> string" where
  "orderby_text ts = (if ts = [] then [] else [newline] @ '' ORDER BY '' @ sep_join '', '' ts)"

definition spec_orderby :: "pivot_vtab \<Rightarrow> sqlite3_index_orderby list \<Rightarrow> string" where
  "spec_orderby tab obs =
     orderby_text (map (spec_order_term tab) (filter (spec_order_eligible tab) obs))"

text \<open>
  The plan as a whole: the \<open>sqlite3_index_info\<close> of the request with the usages, the
  ordering flag, the derived query and the estimates filled in.
\<close>

definition spec_plan :: "pivot_vtab \<Rightarrow> sqlite3_index_info \<Rightarrow> sqlite3_index_info" where
  "spec_plan tab info =
     info\<lparr>aConstraintUsage :=
            map (\<lambda>i. if i < length (aConstraint info)
                      then spec_usage tab (aConstraint info) (aConstraintUsage info) i
                      else aConstraintUsage info ! i)
              [0..<length (aConstraintUsage info)],
          orderByConsumed :=
            (if filter (spec_order_eligible tab) (aOrderBy info) = [] then orderByConsumed info
             else 1),
          idxNum := 0,
          estimatedCost :=
            2147483647
            / (1 + real (length (filter (spec_consumed tab) (aConstraint info)))),
          estimatedRows := 10,
          idxStr := Some (key_sql_full_table_scan tab @ spec_where tab (aConstraint info)
                          @ spec_orderby tab (aOrderBy info)),
          needToFreeIdxStr := 1\<rparr>"

text \<open>
  A request as the engine builds it for a table with key columns only at the indexes
  from 0: one usage entry per constraint, and no consumed constraint or eligible
  ORDER BY term with a negative column index (the engine uses -1 for the rowid).
\<close>

definition request_in_range :: "pivot_vtab \<Rightarrow> sqlite3_index_info \<Rightarrow> bool" where
  "request_in_range tab info \<longleftrightarrow>
     length (aConstraintUsage info) = length (aConstraint info)
     \<and> list_all (\<lambda>c. spec_consumed tab c \<longrightarrow> 0 \<le> c_iColumn c) (aConstraint info)
     \<and> list_all (\<lambda>ob. 0 \<le> o_iColumn ob) (aOrderBy info)"

text \<open>The loop invariants of pivotBestIndex, after \<open>n\<close> rounds of each loop.\<close>

definition constraint_inv :: "pivot_vtab \<Rightarrow> sqlite3_index_info \<Rightarrow> nat \<Rightarrow> plan_state \<Rightarrow> bool" where
  "constraint_inv tab info n s \<longleftrightarrow>
     ps_tab s = tab \<and> orderIdx s = 0
     \<and> argvIndex s = 1 + int (length (filter (spec_consumed tab) (take n (aConstraint info))))
     \<and> key_sql_filtered s
         = key_sql_full_table_scan tab @ spec_where tab (take n (aConstraint info))
     \<and> ps_info s
         = info\<lparr>aConstraintUsage :=
                  map (\<lambda>i. if i < n
                            then spec_usage tab (aConstraint info) (aConstraintUsage info) i
                            else aConstraintUsage info ! i)
                    [0..<length (aConstraintUsage info)]\<rparr>"

definition orderby_inv :: "pivot_vtab \<Rightarrow> plan_state \<Rightarrow> nat \<Rightarrow> plan_state \<Rightarrow> bool" where
  "orderby_inv tab s1 n s \<longleftrightarrow>
     ps_tab s = tab \<and> argvIndex s = argvIndex s1
     \<and> orderIdx s
         = int (length (filter (spec_order_eligible tab) (take n (aOrderBy (ps_info s1)))))
     \<and> key_sql_filtered s
         = key_sql_filtered s1 @ spec_orderby tab (take n (aOrderBy (ps_info s1)))
     \<and> ps_info s
         = (ps_info s1)
             \<lparr>orderByConsumed :=
                (if filter (spec_order_eligible tab) (take n (aOrderBy (ps_info s1))) = []
                 then orderByConsumed (ps_info s1) else 1)\<rparr>"

text \<open>
  Requests as the engine passes them: one usage entry per constraint, the outputs
  zeroed.
\<close>

definition zero_usage :: sqlite3_index_constraint_usage where
  "zero_usage = \<lparr>u_argvIndex = 0, u_omit = 0\<rparr>"

definition request ::
  "sqlite3_index_constraint list \<Rightarrow> sqlite3_index_orderby list \<Rightarrow> sqlite3_index_info"
where
  "request cs obs =
     \<lparr>aConstraint = cs, aOrderBy = obs, aConstraintUsage = replicate (length cs) zero_usage,
      idxNum = 0, idxStr = None, needToFreeIdxStr = 0, orderByConsumed = 0,
      estimatedCost = 0, estimatedRows = 0\<rparr>"

text \<open>
  Constraints and ORDER BY terms for the table of the README (column 0 is the key
  column \<open>r_id\<close>, the columns 1 to 4 are the pivot columns, -1 is the rowid).
\<close>

definition key_eq :: sqlite3_index_constraint where
  "key_eq = \<lparr>c_iColumn = 0, c_op = SQLITE_INDEX_CONSTRAINT_EQ, c_usable = True\<rparr>"

definition key_lt :: sqlite3_index_constraint where
  "key_lt = \<lparr>c_iColumn = 0, c_op = SQLITE_INDEX_CONSTRAINT_LT, c_usable = True\<rparr>"

definition key_function :: sqlite3_index_constraint where
  "key_function = \<lparr>c_iColumn = 0, c_op = SQLITE_INDEX_CONSTRAINT_FUNCTION, c_usable = True\<rparr>"

definition key_unusable :: sqlite3_index_constraint where
  "key_unusable = \<lparr>c_iColumn = 0, c_op = SQLITE_INDEX_CONSTRAINT_EQ, c_usable = False\<rparr>"

definition pivot_eq :: sqlite3_index_constraint where
  "pivot_eq = \<lparr>c_iColumn = 2, c_op = SQLITE_INDEX_CONSTRAINT_EQ, c_usable = True\<rparr>"

definition rowid_eq :: sqlite3_index_constraint where
  "rowid_eq = \<lparr>c_iColumn = - 1, c_op = SQLITE_INDEX_CONSTRAINT_EQ, c_usable = True\<rparr>"

definition by_key_desc :: sqlite3_index_orderby where
  "by_key_desc = \<lparr>o_iColumn = 0, o_desc = True\<rparr>"

definition by_key :: sqlite3_index_orderby where
  "by_key = \<lparr>o_iColumn = 0, o_desc = False\<rparr>"

definition by_pivot :: sqlite3_index_orderby where
  "by_pivot = \<lparr>o_iColumn = 3, o_desc = False\<rparr>"

definition by_rowid :: sqlite3_index_orderby where
  "by_rowid = \<lparr>o_iColumn = - 1, o_desc = False\<rparr>"


section \<open>Descriptions of a scan\<close>

text \<open>The first value of the first row of a result, NULL for an empty result.\<close>

definition first_value :: "row list \<Rightarrow> sql_value" where
  "first_value rows = (case rows of [] \<Rightarrow> SqlNull | r # rs \<Rightarrow> row_value r 0)"



text \<open>
  The cell as pivotColumn computes it on a table that pivotConnect built: the loop
  \<open>for( i=0; i<tab->nRow_key; i++ )\<close> binds the first \<open>nRow_key\<close> values of the row key,
  \<open>nRow_key\<close> being the pivot query's parameter count minus one, and the last parameter
  holds the column key since pivotConnect.
\<close>

definition bound_cell :: "prepared \<Rightarrow> row \<Rightarrow> sql_value \<Rightarrow> sql_value" where
  "bound_cell pq key ck =
     first_value (p_run pq (if p_nparams pq = 0 then []
                            else take (p_nparams pq - 1) key @ [ck]))"

definition scanned_row :: "prepared \<Rightarrow> sql_value list \<Rightarrow> row \<Rightarrow> row" where
  "scanned_row pq cks key = key @ map (bound_cell pq key) cks"

text \<open>
  The column statements of a table as pivotConnect leaves them and as every call of
  pivotColumn leaves them again: compiled from the pivot query, reset, and with the
  last parameter bound to the column key.
\<close>

definition col_stmts_ready :: "prepared \<Rightarrow> sql_value list \<Rightarrow> pivot_vtab \<Rightarrow> bool" where
  "col_stmts_ready pq cks tab \<longleftrightarrow>
     nRow_key tab = int (p_nparams pq) - 1
     \<and> length (col_stmt tab) = length cks
     \<and> (\<forall>k < length cks.
          st_prep (col_stmt tab ! k) = pq
          \<and> st_pending (col_stmt tab ! k) = None
          \<and> length (st_bound (col_stmt tab ! k)) = p_nparams pq
          \<and> (0 < p_nparams pq \<longrightarrow> last (st_bound (col_stmt tab ! k)) = cks ! k))"

text \<open>A cursor on the row \<open>key\<close> of a statement that has the rows \<open>rest\<close> left.\<close>

definition positioned :: "row \<Rightarrow> row list \<Rightarrow> pivot_cursor \<Rightarrow> bool" where
  "positioned key rest cur \<longleftrightarrow>
     rc cur = SQLITE_ROW \<and> pivot_key cur = Key_array (map Some key)
     \<and> (\<exists>s. stmt cur = Some s \<and> st_pending s = Some rest)"


section \<open>Properties of pivotConnect\<close>

lemmas connect_eval =
  pivotConnect_def select_from_def sqlite3_get_table_def validate_unique_def
  unique_outer.simps unique_inner.simps az_cell_def strcmp_eq_def sqlite3_stricmp_eq_def
  dec_int_def dec_nat.simps to_lower_def quote_ident_def fmt_w_def dquote_def newline_def
  row_value_def sqlite3_bind_value_def new_stmt_def eval_nat_numeral

lemma readme_connect:
  \<open>pivotConnect readme_db ''r'' ''c'' ''x'' =
     Connected SQLITE_OK readme_tab ''CREATE TABLE x("r_id","a","b","c","d")''\<close>
  by (simp add: connect_eval readme_db_def readme_eq_sql_def readme_tab_def readme_kq_def readme_cq_def
      readme_pq_def)

lemma wide_connect:
  \<open>pivotConnect wide_db ''w'' ''c'' ''x''
     = Connected SQLITE_OK wide_tab ''CREATE TABLE x("r_id","label","a","b","c","d")''\<close>
  by (simp add: connect_eval wide_db_def wide_tab_def wide_kq_def readme_cq_def readme_pq_def)

subsection \<open>The uniqueness check\<close>

lemma unique_inner_violation:
  "unique_inner t i j = Violation e \<Longrightarrow>
     (\<exists>z. e = Duplicate_column_key z \<or> e = Duplicate_column_name z)"
proof (induction t i j rule: unique_inner.induct)
  case (1 t i j)
  from "1.prems" show ?case
    apply (subst (asm) unique_inner.simps)
    apply (auto split: if_splits option.splits bool.splits dest: "1.IH")
    done
qed

lemma unique_outer_violation:
  "unique_outer t i = Violation e \<Longrightarrow>
     (\<exists>z. e = Duplicate_column_key z \<or> e = Duplicate_column_name z)"
proof (induction t i rule: unique_outer.induct)
  case (1 t i)
  from "1.prems" show ?case
    apply (subst (asm) unique_outer.simps)
    apply (auto split: if_splits unique_check.splits dest: unique_inner_violation "1.IH")
    done
qed

lemma validate_unique_violation:
  "validate_unique t = Violation e \<Longrightarrow>
     (\<exists>z. e = Duplicate_column_key z \<or> e = Duplicate_column_name z)"
  by (auto simp: validate_unique_def split: if_splits dest: unique_outer_violation)

text \<open>
  With at most two result rows the loops compare nothing: \<open>i\<close> starts at 1 and the
  outer loop runs while \<open>i < nRow - 1\<close>.
\<close>

lemma validate_unique_two_rows: "nRow t \<le> 2 \<Longrightarrow> validate_unique t = Unique"
  by (simp add: validate_unique_def unique_outer.simps)

text \<open>
  C1.  The claim: whenever the rows of the column definition query contain a duplicate
  column key, or two names equal up to case, creation fails with an error naming the
  duplicate, also when the duplicate involves the last row and when there are exactly
  two rows.  The code does not do this.  In the array of \<open>sqlite3_get_table\<close> row 0
  holds the column names and the result rows are the rows 1 to \<open>nRow\<close>; the loops run
  \<open>i\<close> from 1 while \<open>i < nRow - 1\<close> and \<open>j\<close> from \<open>i + 1\<close> while \<open>j < nRow\<close>, so the
  last result row is never compared and two rows are never compared at all.  With the
  two rows (1, a) and (1, b), which repeat the column key 1, pivotConnect reaches its
  end, declares the table with both columns and creates it.
\<close>

theorem pivotConnect_duplicate_key_two_rows:
  \<open>(case pivotConnect dup_db ''r'' ''k'' ''x'' of
      Connected r tab sql \<Rightarrow>
        r = SQLITE_OK \<and> nCol_key tab = 2 \<and> sql = ''CREATE TABLE x("r_id","a","b")''
    | _ \<Rightarrow> False)\<close>
  by (simp add: connect_eval dup_db_def readme_kq_def dupkey_cq_def readme_pq_def)

text \<open>
  The same with three rows when the duplicate involves the last row: with the key of
  row 1 again in row 3 the table is created.  With the name of row 2 again, in another
  case, in row 3, the check of pivotConnect does not object either: the duplicated name
  reaches \<open>sqlite3_declare_vtab\<close>, and whether the table is created is left to the
  engine's own reading of the CREATE TABLE text.  A duplicate within the rows before
  the last is found.
\<close>

lemma pivotConnect_duplicate_key_last_row:
  \<open>(case pivotConnect dup_db ''r'' ''k3'' ''x'' of
      Connected r tab sql \<Rightarrow>
        r = SQLITE_OK \<and> nCol_key tab = 3 \<and> sql = ''CREATE TABLE x("r_id","a","b","c")''
    | _ \<Rightarrow> False)\<close>
  by (simp add: connect_eval dup_db_def readme_kq_def dupkey3_cq_def readme_pq_def)

lemma pivotConnect_duplicate_name_last_row:
  \<open>(case pivotConnect dup_db ''r'' ''n3'' ''x'' of
      Connected r tab sql \<Rightarrow>
        r = db_declare_vtab dup_db sql \<and> sql = ''CREATE TABLE x("r_id","a","b","B")''
    | _ \<Rightarrow> False)\<close>
  by (simp add: connect_eval dup_db_def readme_kq_def dupname3_cq_def readme_pq_def)

lemma pivotConnect_duplicate_key_found:
  "pivotConnect dup_db ''r'' ''k12'' ''x'' = Connect_error (Duplicate_column_key (Some ''1''))"
  by (simp add: connect_eval dup_db_def readme_kq_def dupkey12_cq_def readme_pq_def)

subsection \<open>The bound parameter count\<close>

text \<open>
  C2.  The claim: creation fails with the error about the number of bound parameters
  if and only if the pivot query's parameter count minus one differs from the number of
  columns of the key query.  The code compares with \<open>>\<close>: fewer parameters are
  accepted.  The counterexample is the key query with two columns beside the pivot
  query with two parameters: the counts differ (1 against 2) and the table is created.
\<close>

theorem pivotConnect_fewer_parameters_counterexample:
  \<open>int (p_nparams readme_pq) - 1 \<noteq> int (length (p_columns wide_kq))
   \<and> db_prepare wide_db (select_from ''w'') = Inr wide_kq
   \<and> db_prepare wide_db (select_from ''x'') = Inr readme_pq
   \<and> pivotConnect wide_db ''w'' ''c'' ''x'' \<noteq> Connect_error Unexpected_bound_parameters
   \<and> pivotConnect wide_db ''w'' ''c'' ''x''
       = Connected SQLITE_OK wide_tab ''CREATE TABLE x("r_id","label","a","b","c","d")''\<close>
  by (simp add: wide_connect) (simp add: wide_db_def wide_kq_def readme_pq_def select_from_def)

text \<open>
  C2 as amended: when the key query and the pivot query compile, creation fails with
  the error about the number of bound parameters if and only if the pivot query's
  parameter count minus one is greater than the number of columns of the key query.
\<close>

theorem pivotConnect_bound_parameters:
  assumes "db_prepare d (select_from a3) = Inr kq"
    and "db_prepare d (select_from a5) = Inr pq"
  shows "pivotConnect d a3 a4 a5 = Connect_error Unexpected_bound_parameters
         \<longleftrightarrow> int (p_nparams pq) - 1 > int (length (p_columns kq))"
proof
  assume "pivotConnect d a3 a4 a5 = Connect_error Unexpected_bound_parameters"
  with assms show "int (p_nparams pq) - 1 > int (length (p_columns kq))"
    by (auto simp: pivotConnect_def Let_def
        split: if_splits sum.splits unique_check.splits prod.splits
        dest: validate_unique_violation)
next
  assume "int (p_nparams pq) - 1 > int (length (p_columns kq))"
  with assms show "pivotConnect d a3 a4 a5 = Connect_error Unexpected_bound_parameters"
    by (simp add: pivotConnect_def Let_def)
qed

theorem pivotConnect_bound_parameters_witness:
  "(pivotConnect wide_db ''w'' ''c'' ''x'' = Connect_error Unexpected_bound_parameters)
     = (int (p_nparams readme_pq) - 1 > int (length (p_columns wide_kq)))
   \<and> db_prepare wide_db (select_from ''w'') = Inr wide_kq
   \<and> db_prepare wide_db (select_from ''x'') = Inr readme_pq"
proof -
  have k: "db_prepare wide_db (select_from ''w'') = Inr wide_kq"
    by (simp add: wide_db_def)
  have p: "db_prepare wide_db (select_from ''x'') = Inr readme_pq"
    by (simp add: wide_db_def select_from_def)
  show ?thesis
    using pivotConnect_bound_parameters [OF k p, of "''c''"] k p by simp
qed

subsection \<open>The declared schema\<close>

lemma append_singleton_fun [simp]: "(@) [c] = (#) c"
  by (rule ext) simp

lemma append_key_columns_eq:
  "append_key_columns i ns sql =
     sql @ (if i > 0 then concat (map (\<lambda>x. '','' @ x) (map (\<lambda>n. quote_ident (Some n)) ns))
            else column_list (map (\<lambda>n. quote_ident (Some n)) ns))"
  by (induction ns arbitrary: i sql) (simp_all add: column_list_def)

lemma build_columns_eq:
  "build_columns pq nkey rows (n, stmts, sql) =
     (n + int (length rows),
      stmts @ map (\<lambda>r. sqlite3_bind_value (new_stmt pq) (nkey + 1) (row_value r 0)) rows,
      sql @ concat (map (\<lambda>r. '','' @ quote_ident (value_text (row_value r 1))) rows))"
  by (induction rows arbitrary: n stmts sql) simp_all

lemma column_list_append:
  "ks \<noteq> [] \<Longrightarrow> column_list (ks @ ps) = column_list ks @ concat (map (\<lambda>p. '','' @ p) ps)"
  by (cases ks) (simp_all add: column_list_def)

text \<open>
  What pivotConnect returns when it reaches its end: the table object and the declared
  text, in terms of the three compiled queries.
\<close>

lemma pivotConnect_Connected:
  assumes "pivotConnect d a3 a4 a5 = Connected r tab sql"
    and "db_prepare d (select_from a3) = Inr kq"
    and "db_prepare d (select_from a5) = Inr pq"
    and "db_prepare d (select_from a4) = Inr cq"
  shows "tab = \<lparr>db = d, nRow_key = int (p_nparams pq) - 1,
                nRow_cols = int (length (p_columns kq)),
                nCol_key = int (length (p_run cq (replicate (p_nparams cq) SqlNull))),
                col_stmt = map (\<lambda>r. sqlite3_bind_value (new_stmt pq) (int (p_nparams pq))
                                       (row_value r 0))
                             (p_run cq (replicate (p_nparams cq) SqlNull)),
                key_sql_full_table_scan = select_from a3,
                key_sql_col_names = map (\<lambda>n. quote_ident (Some n)) (p_columns kq)\<rparr>"
    and "sql = ''CREATE TABLE x('' @ column_list (map (\<lambda>n. quote_ident (Some n)) (p_columns kq))
                 @ concat (map (\<lambda>r. '','' @ quote_ident (value_text (row_value r 1)))
                             (p_run cq (replicate (p_nparams cq) SqlNull))) @ '')''"
    and "r = db_declare_vtab d sql"
    and "int (p_nparams pq) - 1 \<le> int (length (p_columns kq))"
  using assms
  by (auto simp: pivotConnect_def Let_def build_columns_eq append_key_columns_eq
      split: if_splits sum.splits unique_check.splits)

lemma pivotConnect_prepared:
  assumes "pivotConnect d a3 a4 a5 = Connected r tab sql"
  shows "\<exists>kq pq cq. db_prepare d (select_from a3) = Inr kq
           \<and> db_prepare d (select_from a5) = Inr pq \<and> db_prepare d (select_from a4) = Inr cq"
  using assms
  by (auto simp: pivotConnect_def Let_def split: if_splits sum.splits unique_check.splits)

lemma bound_new_stmt:
  "st_prep (sqlite3_bind_value (new_stmt pq) i v) = pq"
  "length (st_bound (sqlite3_bind_value (new_stmt pq) i v)) = p_nparams pq"
  "st_pending (sqlite3_bind_value (new_stmt pq) i v) = None"
  "0 < p_nparams pq \<Longrightarrow>
     st_bound (sqlite3_bind_value (new_stmt pq) (int (p_nparams pq)) v)
       = replicate (p_nparams pq - 1) SqlNull @ [v]"
proof -
  show "st_prep (sqlite3_bind_value (new_stmt pq) i v) = pq"
    "length (st_bound (sqlite3_bind_value (new_stmt pq) i v)) = p_nparams pq"
    "st_pending (sqlite3_bind_value (new_stmt pq) i v) = None"
    by (simp_all add: sqlite3_bind_value_def new_stmt_def)
  assume pos: "0 < p_nparams pq"
  then obtain m where m: "p_nparams pq = Suc m" by (cases "p_nparams pq") auto
  have "(replicate (Suc m) SqlNull)[m := v]
          = (replicate m SqlNull @ [SqlNull])[length (replicate m SqlNull) := v]"
    by (simp add: replicate_append_same)
  also have "\<dots> = replicate m SqlNull @ [v]"
    by (rule list_update_length)
  finally have "(replicate (Suc m) SqlNull)[m := v] = replicate m SqlNull @ [v]" .
  with m show "st_bound (sqlite3_bind_value (new_stmt pq) (int (p_nparams pq)) v)
       = replicate (p_nparams pq - 1) SqlNull @ [v]"
    by (simp add: sqlite3_bind_value_def new_stmt_def nat_diff_distrib' del: replicate.simps)
qed

text \<open>
  C6.  For a table that pivotConnect created from the compiled queries \<open>kq\<close> (keys),
  \<open>cq\<close> (column definitions, with result rows \<open>rows\<close>) and \<open>pq\<close> (pivot query): the
  declared columns are the key query's result columns, in their order and under their
  names, followed by one column per row of the column definition query, in row order
  and named by the text of the row's second value, each quoted as an identifier; the
  declared text is the CREATE TABLE of that column list; the number of declared columns
  is \<open>nRow_cols\<close> plus the number of rows; and there is one column statement per row,
  compiled from the pivot query, whose last parameter is bound to the row's first value
  (the column key).  The key query has at least one result column, as every query has.
\<close>

theorem pivotConnect_declared_schema:
  assumes "pivotConnect d a3 a4 a5 = Connected r tab sql"
    and "r = SQLITE_OK"
    and "db_prepare d (select_from a3) = Inr kq"
    and "db_prepare d (select_from a5) = Inr pq"
    and "db_prepare d (select_from a4) = Inr cq"
    and "rows = p_run cq (replicate (p_nparams cq) SqlNull)"
    and "declared = map (\<lambda>n. quote_ident (Some n)) (p_columns kq)
                    @ map (\<lambda>r. quote_ident (value_text (row_value r 1))) rows"
    and "p_columns kq \<noteq> []"
  shows "sql = ''CREATE TABLE x('' @ column_list declared @ '')''
       \<and> key_sql_col_names tab = map (\<lambda>n. quote_ident (Some n)) (p_columns kq)
       \<and> nRow_cols tab = int (length (p_columns kq))
       \<and> nCol_key tab = int (length rows)
       \<and> int (length declared) = nRow_cols tab + int (length rows)
       \<and> length (col_stmt tab) = length rows
       \<and> (\<forall>k < length rows.
            st_prep (col_stmt tab ! k) = pq
            \<and> (0 < p_nparams pq \<longrightarrow>
                 st_bound (col_stmt tab ! k)
                   = replicate (p_nparams pq - 1) SqlNull @ [row_value (rows ! k) 0]))"
proof -
  note c = pivotConnect_Connected [OF assms(1,3,4,5)]
  have sql: "sql = ''CREATE TABLE x('' @ column_list declared @ '')''"
    using c(2) assms(6,7,8) by (simp add: column_list_append comp_def)
  have stmts: "\<forall>k < length rows.
            st_prep (col_stmt tab ! k) = pq
            \<and> (0 < p_nparams pq \<longrightarrow>
                 st_bound (col_stmt tab ! k)
                   = replicate (p_nparams pq - 1) SqlNull @ [row_value (rows ! k) 0])"
    using c(1) assms(6) by (simp add: bound_new_stmt)
  show ?thesis
    using sql stmts c(1) assms(6,7) by simp
qed

theorem pivotConnect_declared_schema_witness:
  \<open>pivotConnect readme_db ''r'' ''c'' ''x''
     = Connected SQLITE_OK readme_tab ''CREATE TABLE x("r_id","a","b","c","d")''
   \<and> ''CREATE TABLE x("r_id","a","b","c","d")''
       = ''CREATE TABLE x(''
         @ column_list [quote_ident (Some ''r_id''), quote_ident (Some ''a''),
                        quote_ident (Some ''b''), quote_ident (Some ''c''),
                        quote_ident (Some ''d'')] @ '')''
   \<and> nRow_cols readme_tab = 1 \<and> nCol_key readme_tab = 4
   \<and> length (col_stmt readme_tab) = 4
   \<and> st_bound (col_stmt readme_tab ! 2) = [SqlNull, SqlInt 3]\<close>
proof -
  have k: "db_prepare readme_db (select_from ''r'') = Inr readme_kq"
    by (simp add: readme_db_def readme_eq_sql_def)
  have p: "db_prepare readme_db (select_from ''x'') = Inr readme_pq"
    by (simp add: readme_db_def readme_eq_sql_def select_from_def quote_ident_def)
  have c: "db_prepare readme_db (select_from ''c'') = Inr readme_cq"
    by (simp add: readme_db_def readme_eq_sql_def select_from_def quote_ident_def)
  have ne: "p_columns readme_kq \<noteq> []" by (simp add: readme_kq_def)
  note t = pivotConnect_declared_schema [OF readme_connect refl k p c refl refl ne]
  from t show ?thesis
    using readme_connect
    by (simp add: readme_kq_def readme_cq_def readme_pq_def row_value_def readme_tab_def)
qed


section \<open>Properties of pivotBestIndex\<close>

subsection \<open>Loops\<close>

lemma for_index_append:
  "for_index body (xs @ ys) s =
     (case for_index body xs s of Inl e \<Rightarrow> Inl e | Inr s' \<Rightarrow> for_index body ys s')"
  by (induction xs arbitrary: s) (auto split: sum.splits)

lemma for_index_upt_invariant:
  assumes "for_index body [0..<n] s0 = Inr s"
    and "P 0 s0"
    and "\<And>i t t'. i < n \<Longrightarrow> P i t \<Longrightarrow> body t i = Inr t' \<Longrightarrow> P (Suc i) t'"
  shows "P n s"
  using assms
proof (induction n arbitrary: s)
  case 0
  then show ?case by simp
next
  case (Suc n)
  from Suc.prems(1) obtain s1 where s1: "for_index body [0..<n] s0 = Inr s1"
    and last: "body s1 n = Inr s"
    by (auto simp: for_index_append split: sum.splits)
  have "P n s1"
    using Suc.IH [OF s1 Suc.prems(2)] Suc.prems(3) by simp
  then show ?case
    using Suc.prems(3) [of n s1 s] last by simp
qed

lemma for_index_upt_total:
  assumes "P 0 s0"
    and "\<And>i t. i < n \<Longrightarrow> P i t \<Longrightarrow> \<exists>t'. body t i = Inr t' \<and> P (Suc i) t'"
  shows "\<exists>s. for_index body [0..<n] s0 = Inr s \<and> P n s"
  using assms
proof (induction n)
  case 0
  then show ?case by simp
next
  case (Suc n)
  have "\<exists>s. for_index body [0..<n] s0 = Inr s \<and> P n s"
    using Suc.IH [OF Suc.prems(1)] Suc.prems(2) by simp
  then obtain s1 where s1: "for_index body [0..<n] s0 = Inr s1" "P n s1" by blast
  from Suc.prems(2) [of n s1] s1(2) obtain s where "body s1 n = Inr s" "P (Suc n) s"
    by auto
  with s1(1) show ?case by (simp add: for_index_append)
qed

subsection \<open>Texts\<close>

lemma sep_join_snoc:
  "sep_join sep (xs @ [x]) = (if xs = [] then x else sep_join sep xs @ sep @ x)"
  by (cases xs) (simp_all add: sep_join_def)

lemma where_text_snoc:
  "where_text (cs @ [c])
     = where_text cs @ (if cs = [] then [newline] @ '' WHERE '' else '' AND '') @ c"
  by (simp add: where_text_def sep_join_snoc)

lemma orderby_text_snoc:
  "orderby_text (ts @ [t])
     = orderby_text ts @ (if ts = [] then [newline] @ '' ORDER BY '' else '', '') @ t"
  by (simp add: orderby_text_def sep_join_snoc)

lemma usage_update:
  assumes "n < L" and "v = f n"
  shows "(map (\<lambda>i. if i < n then f i else g i) [0..<L])[n := v]
           = map (\<lambda>i. if i < Suc n then f i else g i) [0..<L]"
  using assms by (intro nth_equalityI) (auto simp: nth_list_update less_Suc_eq)

lemma usage_keep:
  assumes "n < L \<longrightarrow> f n = g n"
  shows "map (\<lambda>i. if i < n then f i else g i) [0..<L]
           = map (\<lambda>i. if i < Suc n then f i else g i) [0..<L]"
  using assms by (intro nth_equalityI) (auto simp: less_Suc_eq)

subsection \<open>The loop over the constraints\<close>

lemma constraint_inv_0:
  "constraint_inv tab info 0
     \<lparr>ps_tab = tab, ps_info = info, key_sql_filtered = key_sql_full_table_scan tab,
      argvIndex = 1, orderIdx = 0\<rparr>"
proof -
  have "map (\<lambda>i. aConstraintUsage info ! i) [0..<length (aConstraintUsage info)]
          = aConstraintUsage info"
    by (rule map_nth)
  then show ?thesis
    by (simp add: constraint_inv_def spec_where_def where_text_def)
qed

lemma constraint_step_inv:
  assumes n: "n < length (aConstraint info)"
    and inv: "constraint_inv tab info n s"
    and step: "constraint_step s n = Inr s'"
  shows "constraint_inv tab info (Suc n) s'"
proof -
  define cs where "cs = aConstraint info"
  define us where "us = aConstraintUsage info"
  define c where "c = cs ! n"
  define U where "U = map (\<lambda>i. if i < n then spec_usage tab cs us i else us ! i) [0..<length us]"
  have tk: "take (Suc n) cs = take n cs @ [c]"
    using n by (simp add: take_Suc_conv_app_nth cs_def c_def)
  from inv have tab: "ps_tab s = tab" and oi: "orderIdx s = 0"
    and av: "argvIndex s = 1 + int (length (filter (spec_consumed tab) (take n cs)))"
    and sql: "key_sql_filtered s = key_sql_full_table_scan tab @ spec_where tab (take n cs)"
    and info: "ps_info s = info\<lparr>aConstraintUsage := U\<rparr>"
    by (simp_all add: constraint_inv_def cs_def us_def U_def)
  have c_eq: "aConstraint (ps_info s) ! n = c"
    by (simp add: info c_def cs_def)
  have lenU: "length U = length us" by (simp add: U_def)
  have Un: "n < length us \<Longrightarrow> U ! n = us ! n" by (simp add: U_def)
  have set: "set_usage t n f =
               (if n < length us
                then Inr (t\<lparr>ps_info := info\<lparr>aConstraintUsage := U[n := f (us ! n)]\<rparr>\<rparr>)
                else Inl Out_of_bounds)"
    if "ps_info t = ps_info s" for t f
    using that by (simp add: set_usage_def info lenU Un)
  have step': "constraint_step s n =
     (if \<not> c_usable c then Inr s
      else if \<not> (c_iColumn c < nRow_cols tab) then Inr s
      else
        (case op_text (c_op c) of
           None \<Rightarrow> set_usage s n (\<lambda>u. u\<lparr>u_omit := 0\<rparr>)
         | Some opr \<Rightarrow>
             (case col_name tab (c_iColumn c) of
                Inl e \<Rightarrow> Inl e
              | Inr name \<Rightarrow>
                  (case set_usage
                          (s\<lparr>key_sql_filtered :=
                               key_sql_filtered s
                               @ (if argvIndex s = 1 then [newline] @ '' WHERE '' else '' AND '')
                               @ name @ '' '' @ opr @ '' ?''\<rparr>)
                          n (\<lambda>u. u\<lparr>u_argvIndex := argvIndex s, u_omit := 1\<rparr>) of
                     Inl e \<Rightarrow> Inl e
                   | Inr s' \<Rightarrow> Inr (s'\<lparr>argvIndex := argvIndex s + 1\<rparr>)))))"
    unfolding constraint_step_def Let_def c_eq tab by (rule refl)
  have goal_eq: "constraint_inv tab info (Suc n) s' \<longleftrightarrow>
     ps_tab s' = tab \<and> orderIdx s' = 0
     \<and> argvIndex s' = 1 + int (length (filter (spec_consumed tab) (take n cs @ [c])))
     \<and> key_sql_filtered s' = key_sql_full_table_scan tab @ spec_where tab (take n cs @ [c])
     \<and> ps_info s'
         = info\<lparr>aConstraintUsage :=
                  map (\<lambda>i. if i < Suc n then spec_usage tab cs us i else us ! i)
                    [0..<length us]\<rparr>"
    unfolding constraint_inv_def cs_def us_def tk [unfolded cs_def] by simp
  show ?thesis
  proof (cases "spec_consumed tab c")
    case True
    then have u: "c_usable c" and col: "c_iColumn c < nRow_cols tab"
      and "op_text (c_op c) \<noteq> None"
      by (simp_all add: spec_consumed_def)
    then obtain opr where opr: "op_text (c_op c) = Some opr" by auto
    from step u col opr obtain name where name: "col_name tab (c_iColumn c) = Inr name"
      by (auto simp: step' split: sum.splits)
    then have name_eq: "name = key_sql_col_names tab ! nat (c_iColumn c)"
      by (auto simp: col_name_def split: if_splits)
    from step u col opr name have lt: "n < length us"
      by (auto simp: step' set split: if_splits)
    have s': "s' = s\<lparr>key_sql_filtered :=
                       key_sql_filtered s
                       @ (if argvIndex s = 1 then [newline] @ '' WHERE '' else '' AND '')
                       @ name @ '' '' @ opr @ '' ?'',
                     ps_info := info\<lparr>aConstraintUsage :=
                                  U[n := (us ! n)\<lparr>u_argvIndex := argvIndex s, u_omit := 1\<rparr>]\<rparr>,
                     argvIndex := argvIndex s + 1\<rparr>"
      using step u col opr name lt by (simp add: step' set)
    have first: "argvIndex s = 1 \<longleftrightarrow> filter (spec_consumed tab) (take n cs) = []"
      by (simp add: av)
    have su: "spec_usage tab cs us n = (us ! n)\<lparr>u_argvIndex := argvIndex s, u_omit := 1\<rparr>"
      using True by (simp add: spec_usage_def c_def [symmetric] av)
    have upd: "U[n := (us ! n)\<lparr>u_argvIndex := argvIndex s, u_omit := 1\<rparr>]
                 = map (\<lambda>i. if i < Suc n then spec_usage tab cs us i else us ! i) [0..<length us]"
      unfolding U_def by (rule usage_update [OF lt]) (simp add: su)
    have wtext: "spec_where tab (take n cs @ [c])
                 = spec_where tab (take n cs)
                   @ (if argvIndex s = 1 then [newline] @ '' WHERE '' else '' AND '')
                   @ name @ '' '' @ opr @ '' ?''"
      using True
      by (simp add: spec_where_def where_text_snoc first spec_conjunct_def name_eq opr fmt_s_def)
    have usage: "ps_info s'
         = info\<lparr>aConstraintUsage :=
                  map (\<lambda>i. if i < Suc n then spec_usage tab cs us i else us ! i)
                    [0..<length us]\<rparr>"
      unfolding upd [symmetric] by (simp add: s')
    have rest: "ps_tab s' = tab \<and> orderIdx s' = 0
       \<and> argvIndex s' = 1 + int (length (filter (spec_consumed tab) (take n cs @ [c])))
       \<and> key_sql_filtered s' = key_sql_full_table_scan tab @ spec_where tab (take n cs @ [c])"
      using True by (simp add: s' tab oi av sql wtext)
    show ?thesis
      unfolding goal_eq using rest usage by blast
  next
    case False
    have wtext: "spec_where tab (take n cs @ [c]) = spec_where tab (take n cs)"
      using False by (simp add: spec_where_def)
    show ?thesis
    proof (cases "c_usable c \<and> c_iColumn c < nRow_cols tab")
      case True
      with False have opn: "op_text (c_op c) = None" by (simp add: spec_consumed_def)
      from step True opn have lt: "n < length us"
        by (auto simp: step' set split: if_splits)
      have s': "s' = s\<lparr>ps_info := info\<lparr>aConstraintUsage := U[n := (us ! n)\<lparr>u_omit := 0\<rparr>]\<rparr>\<rparr>"
        using step True opn lt by (simp add: step' set)
      have su: "spec_usage tab cs us n = (us ! n)\<lparr>u_omit := 0\<rparr>"
        using False True by (simp add: spec_usage_def c_def [symmetric])
      have upd: "U[n := (us ! n)\<lparr>u_omit := 0\<rparr>]
                 = map (\<lambda>i. if i < Suc n then spec_usage tab cs us i else us ! i) [0..<length us]"
        unfolding U_def by (rule usage_update [OF lt]) (simp add: su)
      have usage: "ps_info s'
           = info\<lparr>aConstraintUsage :=
                    map (\<lambda>i. if i < Suc n then spec_usage tab cs us i else us ! i)
                      [0..<length us]\<rparr>"
        unfolding upd [symmetric] by (simp add: s')
      have rest: "ps_tab s' = tab \<and> orderIdx s' = 0
         \<and> argvIndex s' = 1 + int (length (filter (spec_consumed tab) (take n cs @ [c])))
         \<and> key_sql_filtered s' = key_sql_full_table_scan tab @ spec_where tab (take n cs @ [c])"
        using False by (simp add: s' tab oi av sql wtext)
      show ?thesis
        unfolding goal_eq using rest usage by blast
    next
      case other: False
      have s': "s' = s"
        using step other by (auto simp: step' split: if_splits)
      have su: "spec_usage tab cs us n = us ! n"
        using False other by (auto simp: spec_usage_def c_def [symmetric])
      have keep: "U = map (\<lambda>i. if i < Suc n then spec_usage tab cs us i else us ! i) [0..<length us]"
        unfolding U_def by (rule usage_keep) (simp add: su)
      have usage: "ps_info s'
           = info\<lparr>aConstraintUsage :=
                    map (\<lambda>i. if i < Suc n then spec_usage tab cs us i else us ! i)
                      [0..<length us]\<rparr>"
        unfolding keep [symmetric] by (simp add: s' info)
      have rest: "ps_tab s' = tab \<and> orderIdx s' = 0
         \<and> argvIndex s' = 1 + int (length (filter (spec_consumed tab) (take n cs @ [c])))
         \<and> key_sql_filtered s' = key_sql_full_table_scan tab @ spec_where tab (take n cs @ [c])"
        using False by (simp add: s' tab oi av sql wtext)
      show ?thesis
        unfolding goal_eq using rest usage by blast
    qed
  qed
qed

lemma constraint_step_total:
  assumes n: "n < length (aConstraint info)"
    and inv: "constraint_inv tab info n s"
    and len: "length (aConstraintUsage info) = length (aConstraint info)"
    and names: "int (length (key_sql_col_names tab)) = nRow_cols tab"
    and nonneg: "spec_consumed tab (aConstraint info ! n) \<longrightarrow> 0 \<le> c_iColumn (aConstraint info ! n)"
  shows "\<exists>s'. constraint_step s n = Inr s'"
proof -
  from inv have tab: "ps_tab s = tab"
    and info: "aConstraint (ps_info s) = aConstraint info"
      "length (aConstraintUsage (ps_info s)) = length (aConstraintUsage info)"
    by (simp_all add: constraint_inv_def)
  show ?thesis
    using n len names nonneg
    by (auto simp: constraint_step_def Let_def tab info set_usage_def col_name_def
        spec_consumed_def split: option.splits)
qed

subsection \<open>The loop over the ORDER BY terms\<close>

lemma orderby_inv_0:
  "ps_tab s1 = tab \<Longrightarrow> orderIdx s1 = 0 \<Longrightarrow> orderby_inv tab s1 0 s1"
  by (simp add: orderby_inv_def spec_orderby_def orderby_text_def)

lemma orderby_step_inv:
  assumes n: "n < length (aOrderBy (ps_info s1))"
    and inv: "orderby_inv tab s1 n s"
    and step: "orderby_step s n = Inr s'"
  shows "orderby_inv tab s1 (Suc n) s'"
proof -
  define obs where "obs = aOrderBy (ps_info s1)"
  define ob where "ob = obs ! n"
  have tk: "take (Suc n) obs = take n obs @ [ob]"
    using n by (simp add: take_Suc_conv_app_nth obs_def ob_def)
  from inv have tab: "ps_tab s = tab" and av: "argvIndex s = argvIndex s1"
    and oi: "orderIdx s = int (length (filter (spec_order_eligible tab) (take n obs)))"
    and sql: "key_sql_filtered s = key_sql_filtered s1 @ spec_orderby tab (take n obs)"
    and info: "ps_info s
         = (ps_info s1)
             \<lparr>orderByConsumed :=
                (if filter (spec_order_eligible tab) (take n obs) = []
                 then orderByConsumed (ps_info s1) else 1)\<rparr>"
    by (simp_all add: orderby_inv_def obs_def)
  have ob_eq: "aOrderBy (ps_info s) ! n = ob"
    by (simp add: info ob_def obs_def)
  have step': "orderby_step s n =
     (if \<not> (o_iColumn ob < nRow_cols tab) then Inr s
      else
        (case col_name tab (o_iColumn ob) of
           Inl e \<Rightarrow> Inl e
         | Inr name \<Rightarrow>
             Inr (s\<lparr>key_sql_filtered :=
                      key_sql_filtered s
                      @ (if orderIdx s = 0 then [newline] @ '' ORDER BY '' else '', '')
                      @ name @ '' '' @ (if o_desc ob then ''DESC'' else []),
                    ps_info := (ps_info s)\<lparr>orderByConsumed := 1\<rparr>,
                    orderIdx := orderIdx s + 1\<rparr>)))"
    unfolding orderby_step_def Let_def ob_eq tab by (rule refl)
  have goal_eq: "orderby_inv tab s1 (Suc n) s' \<longleftrightarrow>
     ps_tab s' = tab \<and> argvIndex s' = argvIndex s1
     \<and> orderIdx s' = int (length (filter (spec_order_eligible tab) (take n obs @ [ob])))
     \<and> key_sql_filtered s' = key_sql_filtered s1 @ spec_orderby tab (take n obs @ [ob])
     \<and> ps_info s'
         = (ps_info s1)
             \<lparr>orderByConsumed :=
                (if filter (spec_order_eligible tab) (take n obs @ [ob]) = []
                 then orderByConsumed (ps_info s1) else 1)\<rparr>"
    unfolding orderby_inv_def obs_def tk [unfolded obs_def] by simp
  show ?thesis
  proof (cases "spec_order_eligible tab ob")
    case True
    then have col: "o_iColumn ob < nRow_cols tab" by (simp add: spec_order_eligible_def)
    from step col obtain name where name: "col_name tab (o_iColumn ob) = Inr name"
      by (auto simp: step' split: sum.splits)
    then have name_eq: "name = key_sql_col_names tab ! nat (o_iColumn ob)"
      by (auto simp: col_name_def split: if_splits)
    have s': "s' = s\<lparr>key_sql_filtered :=
                      key_sql_filtered s
                      @ (if orderIdx s = 0 then [newline] @ '' ORDER BY '' else '', '')
                      @ name @ '' '' @ (if o_desc ob then ''DESC'' else []),
                    ps_info := (ps_info s)\<lparr>orderByConsumed := 1\<rparr>,
                    orderIdx := orderIdx s + 1\<rparr>"
      using step col name by (simp add: step')
    have first: "orderIdx s = 0 \<longleftrightarrow> filter (spec_order_eligible tab) (take n obs) = []"
      by (simp add: oi)
    have otext: "spec_orderby tab (take n obs @ [ob])
                 = spec_orderby tab (take n obs)
                   @ (if orderIdx s = 0 then [newline] @ '' ORDER BY '' else '', '')
                   @ name @ '' '' @ (if o_desc ob then ''DESC'' else [])"
      using True
      by (simp add: spec_orderby_def orderby_text_snoc first spec_order_term_def name_eq)
    show ?thesis
      unfolding goal_eq using True by (simp add: s' tab av oi sql otext info)
  next
    case False
    then have s': "s' = s"
      using step by (simp add: step' spec_order_eligible_def)
    have otext: "spec_orderby tab (take n obs @ [ob]) = spec_orderby tab (take n obs)"
      using False by (simp add: spec_orderby_def)
    show ?thesis
      unfolding goal_eq using False by (simp add: s' tab av oi sql otext info)
  qed
qed

lemma orderby_step_total:
  assumes n: "n < length (aOrderBy (ps_info s1))"
    and inv: "orderby_inv tab s1 n s"
    and names: "int (length (key_sql_col_names tab)) = nRow_cols tab"
    and nonneg: "0 \<le> o_iColumn (aOrderBy (ps_info s1) ! n)"
  shows "\<exists>s'. orderby_step s n = Inr s'"
proof -
  from inv have tab: "ps_tab s = tab" and info: "aOrderBy (ps_info s) = aOrderBy (ps_info s1)"
    by (simp_all add: orderby_inv_def)
  show ?thesis
    using n names nonneg by (auto simp: orderby_step_def Let_def tab info col_name_def)
qed

subsection \<open>The plan\<close>

text \<open>
  Whenever pivotBestIndex returns, it returns the table object it was given and the
  plan of the reference description.
\<close>

lemma pivotBestIndex_plan:
  assumes "pivotBestIndex tab info = Inr (tab', plan)"
  shows "tab' = tab" and "plan = spec_plan tab info"
proof -
  let ?s0 = "\<lparr>ps_tab = tab, ps_info = info, key_sql_filtered = key_sql_full_table_scan tab,
               argvIndex = 1, orderIdx = 0\<rparr>"
  from assms obtain s1 s2 where
    l1: "for_index constraint_step [0..<length (aConstraint info)] ?s0 = Inr s1"
    and l2: "for_index orderby_step [0..<length (aOrderBy info)] s1 = Inr s2"
    and res: "tab' = ps_tab s2"
      "plan = (ps_info s2)\<lparr>idxNum := 0,
                 estimatedCost := 2147483647 / real_of_int (argvIndex s2),
                 estimatedRows := 10,
                 idxStr := Some (key_sql_filtered s2),
                 needToFreeIdxStr := 1\<rparr>"
    by (auto simp: pivotBestIndex_def split: sum.splits)
  have i1: "constraint_inv tab info (length (aConstraint info)) s1"
    by (rule for_index_upt_invariant [where P = "constraint_inv tab info", OF l1 constraint_inv_0])
      (rule constraint_step_inv)
  then have ob: "aOrderBy (ps_info s1) = aOrderBy info" and t1: "ps_tab s1 = tab"
    and o1: "orderIdx s1 = 0"
    by (simp_all add: constraint_inv_def)
  have i2: "orderby_inv tab s1 (length (aOrderBy info)) s2"
    by (rule for_index_upt_invariant [where P = "orderby_inv tab s1", OF l2 orderby_inv_0 [OF t1 o1]])
      (rule orderby_step_inv, simp_all add: ob)
  show "tab' = tab"
    using i2 res(1) by (simp add: orderby_inv_def)
  from i1 have a1: "argvIndex s1
      = 1 + int (length (filter (spec_consumed tab) (aConstraint info)))"
    and k1: "key_sql_filtered s1
      = key_sql_full_table_scan tab @ spec_where tab (aConstraint info)"
    and p1: "ps_info s1
         = info\<lparr>aConstraintUsage :=
                  map (\<lambda>i. if i < length (aConstraint info)
                            then spec_usage tab (aConstraint info) (aConstraintUsage info) i
                            else aConstraintUsage info ! i)
                    [0..<length (aConstraintUsage info)]\<rparr>"
    by (simp_all add: constraint_inv_def)
  from i2 have a2: "argvIndex s2 = argvIndex s1"
    and k2: "key_sql_filtered s2 = key_sql_filtered s1 @ spec_orderby tab (aOrderBy info)"
    and p2: "ps_info s2
         = (ps_info s1)
             \<lparr>orderByConsumed :=
                (if filter (spec_order_eligible tab) (aOrderBy info) = []
                 then orderByConsumed (ps_info s1) else 1)\<rparr>"
    by (simp_all add: orderby_inv_def ob)
  show "plan = spec_plan tab info"
    unfolding res(2) p2 p1 k2 k1 a2 a1 spec_plan_def by simp
qed

text \<open>
  pivotBestIndex returns for every request in range, on a table whose array of key
  column names has \<open>nRow_cols\<close> entries (as pivotConnect builds it).
\<close>

lemma pivotBestIndex_total:
  assumes req: "request_in_range tab info"
    and names: "int (length (key_sql_col_names tab)) = nRow_cols tab"
  shows "pivotBestIndex tab info = Inr (tab, spec_plan tab info)"
proof -
  let ?s0 = "\<lparr>ps_tab = tab, ps_info = info, key_sql_filtered = key_sql_full_table_scan tab,
               argvIndex = 1, orderIdx = 0\<rparr>"
  from req have len: "length (aConstraintUsage info) = length (aConstraint info)"
    and cneg: "\<And>i. i < length (aConstraint info) \<Longrightarrow>
                 spec_consumed tab (aConstraint info ! i) \<longrightarrow> 0 \<le> c_iColumn (aConstraint info ! i)"
    and oneg: "\<And>i. i < length (aOrderBy info) \<Longrightarrow> 0 \<le> o_iColumn (aOrderBy info ! i)"
    by (simp_all add: request_in_range_def list_all_length)
  have "\<exists>s1. for_index constraint_step [0..<length (aConstraint info)] ?s0 = Inr s1
            \<and> constraint_inv tab info (length (aConstraint info)) s1"
  proof (rule for_index_upt_total [where P = "constraint_inv tab info", OF constraint_inv_0])
    fix i t
    assume i: "i < length (aConstraint info)" and inv: "constraint_inv tab info i t"
    from constraint_step_total [OF i inv len names cneg [OF i]]
    obtain t' where t': "constraint_step t i = Inr t'" by blast
    with constraint_step_inv [OF i inv t']
    show "\<exists>t'. constraint_step t i = Inr t' \<and> constraint_inv tab info (Suc i) t'" by blast
  qed
  then obtain s1 where l1: "for_index constraint_step [0..<length (aConstraint info)] ?s0 = Inr s1"
    and i1: "constraint_inv tab info (length (aConstraint info)) s1" by blast
  from i1 have ob: "aOrderBy (ps_info s1) = aOrderBy info" and t1: "ps_tab s1 = tab"
    and o1: "orderIdx s1 = 0"
    by (simp_all add: constraint_inv_def)
  have "\<exists>s2. for_index orderby_step [0..<length (aOrderBy info)] s1 = Inr s2
            \<and> orderby_inv tab s1 (length (aOrderBy info)) s2"
  proof (rule for_index_upt_total [where P = "orderby_inv tab s1", OF orderby_inv_0 [OF t1 o1]])
    fix i t
    assume i: "i < length (aOrderBy info)" and inv: "orderby_inv tab s1 i t"
    have i': "i < length (aOrderBy (ps_info s1))" using i by (simp add: ob)
    have "0 \<le> o_iColumn (aOrderBy (ps_info s1) ! i)" using oneg [OF i] by (simp add: ob)
    from orderby_step_total [OF i' inv names this]
    obtain t' where t': "orderby_step t i = Inr t'" by blast
    with orderby_step_inv [OF i' inv t']
    show "\<exists>t'. orderby_step t i = Inr t' \<and> orderby_inv tab s1 (Suc i) t'" by blast
  qed
  then obtain s2 where l2: "for_index orderby_step [0..<length (aOrderBy info)] s1 = Inr s2"
    by blast
  from l1 l2 obtain tab' plan where r: "pivotBestIndex tab info = Inr (tab', plan)"
    by (simp add: pivotBestIndex_def)
  with pivotBestIndex_plan [OF r] show ?thesis by simp
qed

subsection \<open>Constraints\<close>

lemmas plan_eval =
  pivotBestIndex_def constraint_step_def orderby_step_def set_usage_def col_name_def
  op_text_def request_def zero_usage_def readme_tab_def
  SQLITE_INDEX_CONSTRAINT_EQ_def SQLITE_INDEX_CONSTRAINT_GT_def SQLITE_INDEX_CONSTRAINT_LE_def
  SQLITE_INDEX_CONSTRAINT_LT_def SQLITE_INDEX_CONSTRAINT_GE_def
  SQLITE_INDEX_CONSTRAINT_MATCH_def SQLITE_INDEX_CONSTRAINT_LIKE_def
  SQLITE_INDEX_CONSTRAINT_GLOB_def SQLITE_INDEX_CONSTRAINT_REGEXP_def
  SQLITE_INDEX_CONSTRAINT_NE_def SQLITE_INDEX_CONSTRAINT_ISNOT_def
  SQLITE_INDEX_CONSTRAINT_ISNOTNULL_def SQLITE_INDEX_CONSTRAINT_ISNULL_def
  SQLITE_INDEX_CONSTRAINT_IS_def SQLITE_INDEX_CONSTRAINT_FUNCTION_def

text \<open>
  C4.  The claim: for every planning request, exactly the usable constraints whose
  column index is below the number of key columns and whose operator has an SQL text
  are consumed, each appended as a conjunct \<open>column operator ?\<close>.  The engine passes
  the column index -1 for a constraint on the rowid.  -1 is below the number of key
  columns, so the loop does not skip the constraint; it then reads
  \<open>key_sql_col_names[-1]\<close>, outside the array, to print the column.  For the request
  with the one constraint \<open>rowid = ?\<close> the model returns the fault.
\<close>

theorem pivotBestIndex_rowid_constraint:
  "pivotBestIndex readme_tab (request [rowid_eq] []) = Inl Out_of_bounds"
  by (simp add: plan_eval rowid_eq_def)

text \<open>
  For the requests in range (no consumed constraint and no ORDER BY term with a
  negative column index) the claim holds: pivotBestIndex returns; the derived query is
  the full scan query followed by the conjuncts of the consumed constraints in input
  order; a consumed constraint gets the next parameter slot, counted from 1, and
  \<open>omit = 1\<close>; any other constraint keeps \<open>omit = 0\<close> and gets no slot.
\<close>

lemma pivotBestIndex_constraints:
  assumes req: "request_in_range tab info"
    and names: "int (length (key_sql_col_names tab)) = nRow_cols tab"
    and zero: "list_all (\<lambda>u. u = zero_usage) (aConstraintUsage info)"
    and i: "i < length (aConstraint info)"
  shows "\<exists>plan. pivotBestIndex tab info = Inr (tab, plan)
           \<and> idxStr plan = Some (key_sql_full_table_scan tab @ spec_where tab (aConstraint info)
                                  @ spec_orderby tab (aOrderBy info))
           \<and> (spec_consumed tab (aConstraint info ! i) \<longrightarrow>
                aConstraintUsage plan ! i
                  = \<lparr>u_argvIndex =
                       1 + int (length (filter (spec_consumed tab) (take i (aConstraint info)))),
                     u_omit = 1\<rparr>)
           \<and> (\<not> spec_consumed tab (aConstraint info ! i) \<longrightarrow>
                aConstraintUsage plan ! i = \<lparr>u_argvIndex = 0, u_omit = 0\<rparr>)"
proof -
  from req have len: "length (aConstraintUsage info) = length (aConstraint info)"
    by (simp add: request_in_range_def)
  from zero i len have z: "aConstraintUsage info ! i = zero_usage"
    by (simp add: list_all_length)
  have "aConstraintUsage (spec_plan tab info) ! i
          = spec_usage tab (aConstraint info) (aConstraintUsage info) i"
    using i len by (simp add: spec_plan_def)
  then show ?thesis
    using pivotBestIndex_total [OF req names] z
    by (auto simp: spec_plan_def spec_usage_def zero_usage_def)
qed

text \<open>
  An example for the table of the README: of the constraints \<open>r_id < ?\<close>, \<open>b = ?\<close>
  (pivot column), \<open>f(r_id)\<close> (function), \<open>r_id = ?\<close> (not usable) and \<open>r_id = ?\<close>, the
  first and the last are consumed.
\<close>

lemma pivotBestIndex_constraints_example:
  \<open>\<exists>plan. pivotBestIndex readme_tab
             (request [key_lt, pivot_eq, key_function, key_unusable, key_eq] [])
           = Inr (readme_tab, plan)
     \<and> idxStr plan
         = Some (select_from ''r'' @ [newline] @ '' WHERE "r_id" < ? AND "r_id" = ?'')
     \<and> aConstraintUsage plan
         = [\<lparr>u_argvIndex = 1, u_omit = 1\<rparr>, \<lparr>u_argvIndex = 0, u_omit = 0\<rparr>,
            \<lparr>u_argvIndex = 0, u_omit = 0\<rparr>, \<lparr>u_argvIndex = 0, u_omit = 0\<rparr>,
            \<lparr>u_argvIndex = 2, u_omit = 1\<rparr>]\<close>
  by (simp add: plan_eval key_lt_def pivot_eq_def key_function_def key_unusable_def key_eq_def
      quote_ident_def fmt_w_def dquote_def upt_rec [of 0] upt_rec [of 1] upt_rec [of 2]
      upt_rec [of 3] upt_rec [of 4] numeral_nat)

subsection \<open>Ordering\<close>

text \<open>
  C5.  The claim: for every planning request with at least one ORDER BY term whose
  column index is below the number of key columns, exactly those terms are appended,
  in the requested order and direction, and the ordering is reported as satisfied.
  The engine passes the column index -1 for ORDER BY rowid; the loop does not skip the
  term and reads \<open>key_sql_col_names[-1]\<close>, outside the array (the same missing test for
  a negative index as in the loop over the constraints).  For the request with the
  one term \<open>ORDER BY rowid\<close> the model returns the fault.
\<close>

theorem pivotBestIndex_rowid_ordering:
  "pivotBestIndex readme_tab (request [] [by_rowid]) = Inl Out_of_bounds"
  by (simp add: plan_eval by_rowid_def)

text \<open>
  For the requests in range the claim holds: the derived query ends with the ORDER BY
  clause of the eligible terms, in the requested order and with their direction; with
  at least one eligible term the ordering is reported as satisfied; with none, no
  ORDER BY clause is written and \<open>orderByConsumed\<close> stays as the engine passed it.
\<close>

lemma pivotBestIndex_ordering:
  assumes req: "request_in_range tab info"
    and names: "int (length (key_sql_col_names tab)) = nRow_cols tab"
  shows "\<exists>plan. pivotBestIndex tab info = Inr (tab, plan)
           \<and> idxStr plan = Some (key_sql_full_table_scan tab @ spec_where tab (aConstraint info)
                                  @ spec_orderby tab (aOrderBy info))
           \<and> (filter (spec_order_eligible tab) (aOrderBy info) \<noteq> [] \<longrightarrow>
                orderByConsumed plan = 1)
           \<and> (filter (spec_order_eligible tab) (aOrderBy info) = [] \<longrightarrow>
                spec_orderby tab (aOrderBy info) = []
                \<and> orderByConsumed plan = orderByConsumed info)"
  using pivotBestIndex_total [OF req names]
  by (simp add: spec_plan_def spec_orderby_def orderby_text_def)

lemma pivotBestIndex_ordering_example:
  \<open>\<exists>plan. pivotBestIndex readme_tab (request [] [by_key_desc, by_pivot, by_key])
           = Inr (readme_tab, plan)
     \<and> idxStr plan
         = Some (select_from ''r'' @ [newline] @ '' ORDER BY "r_id" DESC, "r_id" '')
     \<and> orderByConsumed plan = 1\<close>
  by (simp add: plan_eval by_key_desc_def by_pivot_def by_key_def
      quote_ident_def fmt_w_def dquote_def upt_rec [of 0] upt_rec [of 1] upt_rec [of 2]
      numeral_nat)

lemma pivotBestIndex_no_ordering_example:
  "\<exists>plan. pivotBestIndex readme_tab (request [] [by_pivot]) = Inr (readme_tab, plan)
     \<and> idxStr plan = Some (select_from ''r'') \<and> orderByConsumed plan = 0"
  by (simp add: plan_eval by_pivot_def)

text \<open>
  The number of consumed constraints can be read off the plan: for a request as the
  engine passes it (one zeroed usage entry per constraint), the usage entries with
  \<open>omit = 1\<close> are those of the consumed constraints.
\<close>

lemma consumed_marks:
  assumes plan: "pivotBestIndex tab info = Inr (tab', plan)"
    and zero: "list_all (\<lambda>u. u = zero_usage) (aConstraintUsage info)"
    and len: "length (aConstraintUsage info) = length (aConstraint info)"
  shows "length (filter (\<lambda>u. u_omit u = 1) (aConstraintUsage plan))
           = length (filter (spec_consumed tab) (aConstraint info))"
proof -
  let ?cs = "aConstraint info" and ?us = "aConstraintUsage info"
  let ?g = "\<lambda>i. if i < length ?cs then spec_usage tab ?cs ?us i else ?us ! i"
  have u: "aConstraintUsage plan = map ?g [0..<length ?cs]"
    using pivotBestIndex_plan(2) [OF plan] len by (simp add: spec_plan_def)
  have mark: "u_omit (?g i) = 1 \<longleftrightarrow> spec_consumed tab (?cs ! i)" if "i < length ?cs" for i
  proof -
    from zero len that have "?us ! i = zero_usage" by (simp add: list_all_length)
    with that show ?thesis by (simp add: spec_usage_def zero_usage_def)
  qed
  have "filter (\<lambda>i. u_omit (?g i) = 1) [0..<length ?cs]
          = filter (\<lambda>i. spec_consumed tab (?cs ! i)) [0..<length ?cs]"
    by (rule filter_cong) (use mark in auto)
  then have "length (filter (\<lambda>u. u_omit u = 1) (map ?g [0..<length ?cs]))
          = length (filter (spec_consumed tab) (map (\<lambda>i. ?cs ! i) [0..<length ?cs]))"
    by (simp add: filter_map comp_def)
  then show ?thesis
    by (simp add: u map_nth)
qed


subsection \<open>Estimates\<close>

lemma request_in_range_examples:
  "request_in_range readme_tab (request [key_eq] [])"
  "request_in_range readme_tab (request [] [])"
  "int (length (key_sql_col_names readme_tab)) = nRow_cols readme_tab"
  by (simp_all add: request_in_range_def request_def readme_tab_def key_eq_def)

text \<open>
  C8.  Of two plans for the same table, the one that consumes more constraints has
  the smaller estimated cost (2147483647 divided by one more than the number of
  consumed constraints); the estimated number of rows is 10 in every plan.
\<close>

theorem pivotBestIndex_estimates:
  assumes "pivotBestIndex tab r1 = Inr (t1, p1)"
    and "pivotBestIndex tab r2 = Inr (t2, p2)"
    and "length (filter (spec_consumed tab) (aConstraint r2))
           < length (filter (spec_consumed tab) (aConstraint r1))"
  shows "estimatedCost p1 < estimatedCost p2 \<and> estimatedRows p1 = 10 \<and> estimatedRows p2 = 10"
proof -
  have p: "p1 = spec_plan tab r1" "p2 = spec_plan tab r2"
    using pivotBestIndex_plan(2) [OF assms(1)] pivotBestIndex_plan(2) [OF assms(2)] by simp_all
  have "(2147483647::real) / (1 + real (length (filter (spec_consumed tab) (aConstraint r1))))
          < 2147483647 / (1 + real (length (filter (spec_consumed tab) (aConstraint r2))))"
    using assms(3) by (intro divide_strict_left_mono) simp_all
  then show ?thesis
    by (simp add: p spec_plan_def)
qed

theorem pivotBestIndex_estimates_witness:
  "pivotBestIndex readme_tab (request [key_eq] [])
     = Inr (readme_tab, spec_plan readme_tab (request [key_eq] []))
   \<and> pivotBestIndex readme_tab (request [] [])
     = Inr (readme_tab, spec_plan readme_tab (request [] []))
   \<and> estimatedCost (spec_plan readme_tab (request [key_eq] [])) = 2147483647 / 2
   \<and> estimatedCost (spec_plan readme_tab (request [] [])) = 2147483647
   \<and> estimatedCost (spec_plan readme_tab (request [key_eq] []))
       < estimatedCost (spec_plan readme_tab (request [] []))
   \<and> estimatedRows (spec_plan readme_tab (request [key_eq] [])) = 10"
proof -
  note a = pivotBestIndex_total [OF request_in_range_examples(1) request_in_range_examples(3)]
  note b = pivotBestIndex_total [OF request_in_range_examples(2) request_in_range_examples(3)]
  have c: "length (filter (spec_consumed readme_tab) (aConstraint (request [] [])))
             < length (filter (spec_consumed readme_tab) (aConstraint (request [key_eq] [])))"
    by (simp add: request_def spec_consumed_def key_eq_def readme_tab_def op_text_def)
  have d: "estimatedCost (spec_plan readme_tab (request [key_eq] [])) = 2147483647 / 2"
    "estimatedCost (spec_plan readme_tab (request [] [])) = 2147483647"
    by (simp_all add: spec_plan_def request_def spec_consumed_def key_eq_def readme_tab_def
        op_text_def)
  from pivotBestIndex_estimates [OF a b c] a b d show ?thesis by simp
qed

subsection \<open>The table object\<close>

text \<open>
  C9.  A planning call that returns leaves the table object as it was, in every
  field, and its plan is the plan of the reference description, which is a function of
  the request and the table object only.
\<close>

theorem pivotBestIndex_frame:
  assumes "pivotBestIndex tab info = Inr (tab', plan)"
  shows "tab' = tab
       \<and> key_sql_col_names tab' = key_sql_col_names tab
       \<and> nRow_cols tab' = nRow_cols tab \<and> nRow_key tab' = nRow_key tab
       \<and> nCol_key tab' = nCol_key tab \<and> col_stmt tab' = col_stmt tab
       \<and> key_sql_full_table_scan tab' = key_sql_full_table_scan tab
       \<and> plan = spec_plan tab info"
  using pivotBestIndex_plan [OF assms] by simp

theorem pivotBestIndex_frame_witness:
  "\<exists>tab' plan. pivotBestIndex readme_tab (request [key_eq] []) = Inr (tab', plan)
     \<and> tab' = readme_tab \<and> plan = spec_plan readme_tab (request [key_eq] [])"
  using pivotBestIndex_frame
          [OF pivotBestIndex_total [OF request_in_range_examples(1) request_in_range_examples(3)]]
    pivotBestIndex_total [OF request_in_range_examples(1) request_in_range_examples(3)]
  by simp


section \<open>Properties of the cursor\<close>

subsection \<open>pivotColumn\<close>

lemma key_value_positioned:
  assumes "pivot_key cur = Key_array (map Some vals)" and "0 \<le> i" and "i < int (length vals)"
  shows "key_value cur i = Inr (vals ! nat i)"
  using assms by (simp add: key_value_def)

lemma bind_keys:
  assumes "pivot_key cur = Key_array (map Some vals)"
    and "n \<le> length vals" and "n \<le> length (st_bound s)" and "st_pending s = None"
  shows "for_index (bind_key_step cur) [0..<n] s
           = Inr (s\<lparr>st_bound := take n vals @ drop n (st_bound s)\<rparr>)"
  using assms(2,3)
proof (induction n)
  case 0
  then show ?case by simp
next
  case (Suc n)
  let ?s1 = "s\<lparr>st_bound := take n vals @ drop n (st_bound s)\<rparr>"
  have loop: "for_index (bind_key_step cur) [0..<n] s = Inr ?s1"
    using Suc by simp
  have kv: "key_value cur (int n) = Inr (vals ! n)"
    using key_value_positioned [OF assms(1), of "int n"] Suc.prems by simp
  have dr: "drop n (st_bound s) = st_bound s ! n # drop (Suc n) (st_bound s)"
    using Suc.prems by (simp add: Cons_nth_drop_Suc)
  have "(take n vals @ drop n (st_bound s))[n := vals ! n]
          = take n vals @ (drop n (st_bound s))[0 := vals ! n]"
    using Suc.prems by (simp add: list_update_append)
  also have "\<dots> = take n vals @ vals ! n # drop (Suc n) (st_bound s)"
    by (subst dr) simp
  also have "\<dots> = take (Suc n) vals @ drop (Suc n) (st_bound s)"
    using Suc.prems by (simp add: take_Suc_conv_app_nth)
  finally have upd: "(take n vals @ drop n (st_bound s))[n := vals ! n]
          = take (Suc n) vals @ drop (Suc n) (st_bound s)" .
  have "bind_key_step cur ?s1 n
          = Inr (s\<lparr>st_bound := take (Suc n) vals @ drop (Suc n) (st_bound s)\<rparr>)"
    using Suc.prems assms(4) by (simp add: bind_key_step_def kv sqlite3_bind_value_def upd)
  then show ?case
    by (simp add: for_index_append loop)
qed

lemma step_reset:
  assumes "st_pending s = None"
  shows "(case sqlite3_step s of
            (r, s2) \<Rightarrow> (sqlite3_reset s2,
                         if r = SQLITE_ROW then sqlite3_column_value s2 0 else SqlNull))
           = (s\<lparr>st_pending := None, st_row := None\<rparr>,
              first_value (p_run (st_prep s) (st_bound s)))"
  using assms
  by (cases "p_run (st_prep s) (st_bound s)")
    (simp_all add: sqlite3_step_def sqlite3_reset_def sqlite3_column_value_def first_value_def
      row_value_def SQLITE_ROW_def SQLITE_DONE_def)

text \<open>
  A pivot column of a positioned cursor: the leading \<open>nRow_key\<close> parameters of the
  column statement are bound to the first \<open>nRow_key\<close> values of the row key, the other
  parameters stay, and the value is the first value of the statement's result.
\<close>

lemma pivotColumn_pivot:
  assumes pos: "pivot_key cur = Key_array (map Some vals)"
    and i: "nRow_cols tab \<le> i" "i - nRow_cols tab < int (length (col_stmt tab))"
    and k: "k = nat (i - nRow_cols tab)" and n: "n = nat (nRow_key tab)"
    and le: "n \<le> length vals" "n \<le> length (st_bound (col_stmt tab ! k))"
    and reset: "st_pending (col_stmt tab ! k) = None"
  shows "pivotColumn tab cur i
           = Inr (tab\<lparr>col_stmt := (col_stmt tab)
                         [k := (col_stmt tab ! k)
                                 \<lparr>st_bound := take n vals @ drop n (st_bound (col_stmt tab ! k)),
                                  st_pending := None, st_row := None\<rparr>]\<rparr>,
                  first_value (p_run (st_prep (col_stmt tab ! k))
                                 (take n vals @ drop n (st_bound (col_stmt tab ! k)))))"
proof -
  let ?s = "col_stmt tab ! k"
  let ?s1 = "?s\<lparr>st_bound := take n vals @ drop n (st_bound ?s)\<rparr>"
  have loop: "for_index (bind_key_step cur) [0..<nat (nRow_key tab)] ?s = Inr ?s1"
    using bind_keys [OF pos le reset] n by simp
  have sr: "(case sqlite3_step ?s1 of
            (r, s2) \<Rightarrow> (sqlite3_reset s2,
                         if r = SQLITE_ROW then sqlite3_column_value s2 0 else SqlNull))
           = (?s1\<lparr>st_pending := None, st_row := None\<rparr>,
              first_value (p_run (st_prep ?s1) (st_bound ?s1)))"
    by (rule step_reset) (simp add: reset)
  show ?thesis
    using i sr
    by (auto simp: pivotColumn_def Let_def k [symmetric] loop split: prod.splits)
qed

lemma pivotColumn_key:
  assumes "pivot_key cur = Key_array (map Some vals)"
    and "0 \<le> i" and "i < nRow_cols tab" and "i < int (length vals)"
  shows "pivotColumn tab cur i = Inr (tab, vals ! nat i)"
  using assms by (simp add: pivotColumn_def key_value_positioned)

text \<open>
  C10.  For a cursor positioned on a row and a pivot column, pivotColumn binds the
  first \<open>nRow_key\<close> values of the row key (\<open>nRow_key\<close> is the pivot query's parameter
  count minus one) to the leading parameters of the column statement and leaves the
  other parameters as they are; the value it returns is the first value of the
  statement's result for these parameters.  A cursor whose row key has the same first
  \<open>nRow_key\<close> values gets the same answer: the values after them have no influence.
\<close>

theorem pivotColumn_leading_keys:
  assumes pos: "pivot_key cur = Key_array (map Some vals)"
    and i: "nRow_cols tab \<le> i" "i - nRow_cols tab < int (length (col_stmt tab))"
    and k: "k = nat (i - nRow_cols tab)" and n: "n = nat (nRow_key tab)"
    and le: "n \<le> length vals" "n \<le> length (st_bound (col_stmt tab ! k))"
    and reset: "st_pending (col_stmt tab ! k) = None"
    and pos': "pivot_key cur' = Key_array (map Some vals')"
    and same: "take n vals' = take n vals"
  shows "pivotColumn tab cur' i = pivotColumn tab cur i
       \<and> (\<exists>tab' v. pivotColumn tab cur i = Inr (tab', v)
             \<and> st_bound (col_stmt tab' ! k) = take n vals @ drop n (st_bound (col_stmt tab ! k))
             \<and> v = first_value (p_run (st_prep (col_stmt tab ! k))
                                   (take n vals @ drop n (st_bound (col_stmt tab ! k)))))"
proof -
  have "length (take n vals') = n"
    using same le(1) by simp
  then have le': "n \<le> length vals'" by simp
  have kl: "k < length (col_stmt tab)" using i k by simp
  note a = pivotColumn_pivot [OF pos i k n le reset]
  note b = pivotColumn_pivot [OF pos' i k n le' le(2) reset]
  show ?thesis
    using a b same kl by simp
qed

theorem pivotColumn_leading_keys_witness:
  "pivotColumn wide_tab (cursor_on [SqlInt 1, SqlText ''uno'']) 2
     = pivotColumn wide_tab (cursor_on [SqlInt 1, SqlText ''one'']) 2
   \<and> (\<exists>tab' v. pivotColumn wide_tab (cursor_on [SqlInt 1, SqlText ''one'']) 2 = Inr (tab', v)
         \<and> st_bound (col_stmt tab' ! 0) = [SqlInt 1, SqlInt 1]
         \<and> v = SqlText ''a1'')"
proof -
  have pos: "pivot_key (cursor_on [SqlInt 1, SqlText ''one''])
               = Key_array (map Some [SqlInt 1, SqlText ''one''])"
    and pos': "pivot_key (cursor_on [SqlInt 1, SqlText ''uno''])
               = Key_array (map Some [SqlInt 1, SqlText ''uno''])"
    by (simp_all add: cursor_on_def)
  have i: "nRow_cols wide_tab \<le> 2" "2 - nRow_cols wide_tab < int (length (col_stmt wide_tab))"
    and k: "0 = nat (2 - nRow_cols wide_tab)" and n: "1 = nat (nRow_key wide_tab)"
    and le: "1 \<le> length [SqlInt 1, SqlText ''one'']"
      "1 \<le> length (st_bound (col_stmt wide_tab ! 0))"
    and reset: "st_pending (col_stmt wide_tab ! 0) = None"
    and same: "take 1 [SqlInt 1, SqlText ''uno''] = take 1 [SqlInt 1, SqlText ''one'']"
    by (simp_all add: wide_tab_def)
  have v: "first_value (p_run (st_prep (col_stmt wide_tab ! 0))
             (take 1 [SqlInt 1, SqlText ''one''] @ drop 1 (st_bound (col_stmt wide_tab ! 0))))
           = SqlText ''a1''"
    by (simp add: wide_tab_def readme_pq_def lookup_x_def readme_x_def first_value_def
        row_value_def)
  have b: "take 1 [SqlInt 1, SqlText ''one''] @ drop 1 (st_bound (col_stmt wide_tab ! 0))
           = [SqlInt 1, SqlInt 1]"
    by (simp add: wide_tab_def)
  from pivotColumn_leading_keys [OF pos i k n le reset pos' same] v b
  show ?thesis by simp
qed

subsection \<open>The end of a scan\<close>

lemma advance_done_open:
  assumes adv: "cur1 = pivotFilter tab cur0 z argv \<or> pivotNext tab cur0 = Inr cur1"
    and dn: "rc cur1 = SQLITE_DONE"
  shows "stmt cur1 \<noteq> None"
  using adv
proof
  assume "cur1 = pivotFilter tab cur0 z argv"
  with dn show ?thesis
    by (auto simp: pivotFilter_def Let_def step_handle_def SQLITE_MISUSE_def SQLITE_DONE_def
        split: prod.splits if_splits option.splits sum.splits)
next
  assume "pivotNext tab cur0 = Inr cur1"
  with dn show ?thesis
    by (auto simp: pivotNext_def step_handle_def SQLITE_MISUSE_def SQLITE_DONE_def
        split: key_array.splits prod.splits if_splits sum.splits option.splits)
qed

text \<open>
  C7.  The claim: after an advance (pivotFilter or pivotNext) that finds no further
  row, the statement of the row key query is finalized at once, so that an exhausted
  cursor holds no open statement.  The advance itself leaves the statement open: the
  code finalizes it in pivotEof.  Counterexample: a scan of the README table under
  \<open>r_id = 9\<close> finds no row in pivotFilter, a scan under \<open>r_id = 2\<close> finds none in the
  first pivotNext; both cursors have \<open>rc = SQLITE_DONE\<close> and still hold their statement.
\<close>

theorem advance_leaves_statement_open:
  "rc (pivotFilter readme_tab pivotOpen readme_eq_sql [SqlInt 9]) = SQLITE_DONE
   \<and> stmt (pivotFilter readme_tab pivotOpen readme_eq_sql [SqlInt 9])
       = Some \<lparr>st_prep = readme_kq_eq, st_bound = [SqlInt 9], st_pending = None, st_row = None\<rparr>
   \<and> pivotNext readme_tab (pivotFilter readme_tab pivotOpen readme_eq_sql [SqlInt 2])
       = Inr \<lparr>iRowid = 2,
              stmt = Some \<lparr>st_prep = readme_kq_eq, st_bound = [SqlInt 2], st_pending = None,
                           st_row = None\<rparr>,
              rc = SQLITE_DONE, pivot_key = Key_array [None]\<rparr>"
  by (simp add: pivotFilter_def pivotNext_def pivotOpen_def readme_tab_def readme_db_def readme_eq_sql_def
      sqlite3_prepare_v2_def new_stmt_def sqlite3_bind_value_def step_handle_def sqlite3_step_def
      readme_kq_eq_def malloc_keys_def copy_row_key_def column_value_handle_def
      sqlite3_column_value_def SQLITE_DONE_def SQLITE_ROW_def)

text \<open>
  C7 as amended.  pivotEof answers true exactly when \<open>rc\<close> is SQLITE\_DONE.  After an
  advance that finds no further row (\<open>rc = SQLITE_DONE\<close>) the cursor still holds its
  statement and holds no value of a row key, and the call of pivotEof that follows
  answers true, finalizes the statement, clears the field and frees the key array:
  after it the cursor holds no open statement.  (The table has at least one key
  column.)
\<close>

theorem exhausted_cursor:
  assumes adv: "cur1 = pivotFilter tab cur0 z argv \<or> pivotNext tab cur0 = Inr cur1"
    and cols: "0 < nRow_cols tab"
    and dn: "rc cur1 = SQLITE_DONE"
  shows "(\<forall>c b c'. pivotEof tab c = Inr (b, c') \<longrightarrow> (b \<longleftrightarrow> rc c = SQLITE_DONE))
       \<and> stmt cur1 \<noteq> None
       \<and> (\<forall>ks. pivot_key cur1 = Key_array ks \<longrightarrow> (\<forall>v \<in> set ks. v = None))
       \<and> (\<exists>cur2. pivotEof tab cur1 = Inr (True, cur2) \<and> stmt cur2 = None
              \<and> (\<forall>ks. pivot_key cur2 \<noteq> Key_array ks))"
proof -
  have eof: "\<forall>c b c'. pivotEof tab c = Inr (b, c') \<longrightarrow> (b \<longleftrightarrow> rc c = SQLITE_DONE)"
    by (auto simp: pivotEof_def split: if_splits key_array.splits)
  have key: "pivot_key cur1 = Key_null \<or> (\<exists>m. pivot_key cur1 = Key_array (replicate m None))"
    using adv
  proof
    assume "cur1 = pivotFilter tab cur0 z argv"
    with dn show ?thesis
      by (auto simp: pivotFilter_def Let_def split: prod.splits if_splits)
  next
    assume "pivotNext tab cur0 = Inr cur1"
    with dn cols show ?thesis
      by (auto simp: pivotNext_def split: key_array.splits prod.splits if_splits sum.splits)
  qed
  then have novalue: "\<forall>ks. pivot_key cur1 = Key_array ks \<longrightarrow> (\<forall>v \<in> set ks. v = None)"
    by auto
  from key dn have "\<exists>cur2. pivotEof tab cur1 = Inr (True, cur2) \<and> stmt cur2 = None
              \<and> (\<forall>ks. pivot_key cur2 \<noteq> Key_array ks)"
    by (auto simp: pivotEof_def)
  with eof novalue advance_done_open [OF adv dn] show ?thesis by blast
qed

theorem exhausted_cursor_witness:
  "rc (pivotFilter readme_tab pivotOpen readme_eq_sql [SqlInt 9]) = SQLITE_DONE
   \<and> 0 < nRow_cols readme_tab
   \<and> stmt (pivotFilter readme_tab pivotOpen readme_eq_sql [SqlInt 9]) \<noteq> None
   \<and> (\<exists>cur2. pivotEof readme_tab (pivotFilter readme_tab pivotOpen readme_eq_sql [SqlInt 9])
               = Inr (True, cur2) \<and> stmt cur2 = None)"
proof -
  have dn: "rc (pivotFilter readme_tab pivotOpen readme_eq_sql [SqlInt 9]) = SQLITE_DONE"
    by (simp add: pivotFilter_def pivotOpen_def readme_tab_def readme_db_def readme_eq_sql_def
      sqlite3_prepare_v2_def new_stmt_def sqlite3_bind_value_def step_handle_def sqlite3_step_def
      readme_kq_eq_def malloc_keys_def SQLITE_DONE_def SQLITE_ROW_def)
  have cols: "0 < nRow_cols readme_tab" by (simp add: readme_tab_def)
  have adv: "pivotFilter readme_tab pivotOpen readme_eq_sql [SqlInt 9]
               = pivotFilter readme_tab pivotOpen readme_eq_sql [SqlInt 9]
             \<or> pivotNext readme_tab pivotOpen
               = Inr (pivotFilter readme_tab pivotOpen readme_eq_sql [SqlInt 9])"
    by simp
  from exhausted_cursor [OF adv cols dn] dn cols show ?thesis by blast
qed

subsection \<open>Reading a row\<close>

lemma drop_last:
  assumes "length xs = Suc n"
  shows "drop n xs = [last xs]"
proof (cases xs rule: rev_cases)
  case Nil
  with assms show ?thesis by simp
next
  case (snoc ys y)
  with assms show ?thesis by simp
qed

lemma connect_col_stmts_ready:
  assumes "pivotConnect d a3 a4 a5 = Connected r tab sql"
    and "db_prepare d (select_from a3) = Inr kq"
    and "db_prepare d (select_from a5) = Inr pq"
    and "db_prepare d (select_from a4) = Inr cq"
  shows "col_stmts_ready pq (map (\<lambda>c. row_value c 0) (p_run cq (replicate (p_nparams cq) SqlNull)))
           tab"
proof -
  note c = pivotConnect_Connected [OF assms]
  show ?thesis
    by (simp add: c(1) col_stmts_ready_def bound_new_stmt)
qed

lemma pivotColumn_ready:
  assumes ready: "col_stmts_ready pq cks tab"
    and pos: "pivot_key cur = Key_array (map Some vals)"
    and le: "nRow_key tab \<le> int (length vals)"
    and k: "k < length cks"
  shows "\<exists>tab'. pivotColumn tab cur (nRow_cols tab + int k) = Inr (tab', bound_cell pq vals (cks ! k))
           \<and> col_stmts_ready pq cks tab' \<and> nRow_cols tab' = nRow_cols tab
           \<and> nRow_key tab' = nRow_key tab"
proof -
  let ?s = "col_stmt tab ! k"
  let ?n = "nat (nRow_key tab)"
  from ready k have nk: "nRow_key tab = int (p_nparams pq) - 1"
    and len: "length (col_stmt tab) = length cks"
    and prep: "st_prep ?s = pq" and pend: "st_pending ?s = None"
    and bl: "length (st_bound ?s) = p_nparams pq"
    and lst: "0 < p_nparams pq \<Longrightarrow> last (st_bound ?s) = cks ! k"
    by (simp_all add: col_stmts_ready_def)
  have n: "?n = p_nparams pq - 1" using nk by simp
  have i: "nRow_cols tab \<le> nRow_cols tab + int k"
    "nRow_cols tab + int k - nRow_cols tab < int (length (col_stmt tab))"
    and k': "k = nat (nRow_cols tab + int k - nRow_cols tab)"
    using k len by simp_all
  have le1: "?n \<le> length vals" using le by simp
  have le2: "?n \<le> length (st_bound ?s)" using n bl by simp
  let ?b = "take ?n vals @ drop ?n (st_bound ?s)"
  have params: "?b = (if p_nparams pq = 0 then [] else take (p_nparams pq - 1) vals @ [cks ! k])"
  proof (cases "p_nparams pq = 0")
    case True
    then show ?thesis using n bl by simp
  next
    case False
    then have "length (st_bound ?s) = Suc ?n" using n bl by simp
    then have "drop ?n (st_bound ?s) = [last (st_bound ?s)]" by (rule drop_last)
    with False lst n show ?thesis by simp
  qed
  have lb: "length ?b = p_nparams pq" using le1 n bl by simp
  have lastb: "0 < p_nparams pq \<Longrightarrow> last ?b = cks ! k"
    using params by simp
  let ?tab' = "tab\<lparr>col_stmt := (col_stmt tab)
                   [k := ?s\<lparr>st_bound := ?b, st_pending := None, st_row := None\<rparr>]\<rparr>"
  have col: "pivotColumn tab cur (nRow_cols tab + int k)
               = Inr (?tab', first_value (p_run (st_prep ?s) ?b))"
    by (rule pivotColumn_pivot [OF pos i k' refl le1 le2 pend])
  have val: "first_value (p_run (st_prep ?s) ?b) = bound_cell pq vals (cks ! k)"
    unfolding bound_cell_def prep params ..
  have "col_stmts_ready pq cks ?tab'"
    unfolding col_stmts_ready_def
  proof (intro conjI allI impI)
    show "nRow_key ?tab' = int (p_nparams pq) - 1" using nk by simp
    show "length (col_stmt ?tab') = length cks" using len by simp
  next
    fix j assume j: "j < length cks"
    from ready j have old: "st_prep (col_stmt tab ! j) = pq"
      "st_pending (col_stmt tab ! j) = None"
      "length (st_bound (col_stmt tab ! j)) = p_nparams pq"
      "0 < p_nparams pq \<longrightarrow> last (st_bound (col_stmt tab ! j)) = cks ! j"
      by (simp_all add: col_stmts_ready_def)
    show "st_prep (col_stmt ?tab' ! j) = pq"
      using old(1) prep j len by (cases "j = k") simp_all
    show "st_pending (col_stmt ?tab' ! j) = None"
      using old(2) j len by (cases "j = k") simp_all
    show "length (st_bound (col_stmt ?tab' ! j)) = p_nparams pq"
      using old(3) lb j len by (cases "j = k") simp_all
    show "last (st_bound (col_stmt ?tab' ! j)) = cks ! j" if "0 < p_nparams pq"
      using old(4) lastb that j len by (cases "j = k") simp_all
  qed
  with col val show ?thesis by simp
qed

lemma read_columns_append:
  "read_columns tab cur (xs @ ys) =
     (case read_columns tab cur xs of
        Inl e \<Rightarrow> Inl e
      | Inr (t1, vs) \<Rightarrow>
          (case read_columns t1 cur ys of
             Inl e \<Rightarrow> Inl e
           | Inr (t2, ws) \<Rightarrow> Inr (t2, vs @ ws)))"
  by (induction xs arbitrary: tab) (auto split: sum.splits prod.splits)

lemma read_columns_keys:
  assumes "pivot_key cur = Key_array (map Some vals)"
    and "\<forall>i \<in> set is. i < length vals \<and> int i < nRow_cols tab"
  shows "read_columns tab cur (map int is) = Inr (tab, map (\<lambda>i. vals ! i) is)"
  using assms(2)
proof (induction "is")
  case Nil
  then show ?case by simp
next
  case (Cons i "is")
  have "pivotColumn tab cur (int i) = Inr (tab, vals ! i)"
    using pivotColumn_key [OF assms(1), of "int i" tab] Cons.prems by simp
  with Cons show ?case by simp
qed

lemma read_columns_pivots:
  assumes "col_stmts_ready pq cks tab"
    and "pivot_key cur = Key_array (map Some vals)"
    and "nRow_key tab \<le> int (length vals)"
    and "\<forall>k \<in> set ks. k < length cks"
  shows "\<exists>tab'. read_columns tab cur (map (\<lambda>k. nRow_cols tab + int k) ks)
                  = Inr (tab', map (\<lambda>k. bound_cell pq vals (cks ! k)) ks)
           \<and> col_stmts_ready pq cks tab' \<and> nRow_cols tab' = nRow_cols tab
           \<and> nRow_key tab' = nRow_key tab"
  using assms(1,3,4)
proof (induction ks arbitrary: tab)
  case Nil
  then show ?case by simp
next
  case (Cons k ks)
  from Cons.prems have k: "k < length cks" by simp
  from pivotColumn_ready [OF Cons.prems(1) assms(2) Cons.prems(2) k]
  obtain tab1 where c: "pivotColumn tab cur (nRow_cols tab + int k)
                          = Inr (tab1, bound_cell pq vals (cks ! k))"
    and r1: "col_stmts_ready pq cks tab1" and n1: "nRow_cols tab1 = nRow_cols tab"
    and k1: "nRow_key tab1 = nRow_key tab"
    by blast
  have "\<exists>tab'. read_columns tab1 cur (map (\<lambda>k. nRow_cols tab1 + int k) ks)
                  = Inr (tab', map (\<lambda>k. bound_cell pq vals (cks ! k)) ks)
           \<and> col_stmts_ready pq cks tab' \<and> nRow_cols tab' = nRow_cols tab1
           \<and> nRow_key tab' = nRow_key tab1"
    using Cons.IH [OF r1] Cons.prems k1 by simp
  then obtain tab2 where
    rest: "read_columns tab1 cur (map (\<lambda>k. nRow_cols tab + int k) ks)
                  = Inr (tab2, map (\<lambda>k. bound_cell pq vals (cks ! k)) ks)"
    and r2: "col_stmts_ready pq cks tab2" "nRow_cols tab2 = nRow_cols tab"
      "nRow_key tab2 = nRow_key tab"
    using n1 k1 by auto
  show ?case
    using c rest r2 by simp
qed

lemma pivotColumn_frame:
  "pivotColumn tab cur i = Inr (tab', v) \<Longrightarrow>
     nCol_key tab' = nCol_key tab \<and> nRow_cols tab' = nRow_cols tab \<and> db tab' = db tab"
  by (auto simp: pivotColumn_def Let_def split: if_splits sum.splits prod.splits)

lemma read_columns_frame:
  "read_columns tab cur is = Inr (tab', vs) \<Longrightarrow>
     nCol_key tab' = nCol_key tab \<and> nRow_cols tab' = nRow_cols tab \<and> db tab' = db tab"
proof (induction "is" arbitrary: tab vs)
  case Nil
  then show ?case by simp
next
  case (Cons i "is")
  from Cons.prems obtain tab1 v ws where c: "pivotColumn tab cur i = Inr (tab1, v)"
    and r: "read_columns tab1 cur is = Inr (tab', ws)"
    by (auto split: sum.splits prod.splits)
  from pivotColumn_frame [OF c] Cons.IH [OF r] show ?case by simp
qed

lemma all_columns_split:
  assumes "0 \<le> nRow_cols tab" and "0 \<le> nCol_key tab"
  shows "all_columns tab
           = map int [0..<nat (nRow_cols tab)]
             @ map (\<lambda>k. nRow_cols tab + int k) [0..<nat (nCol_key tab)]"
proof (rule nth_equalityI)
  show "length (all_columns tab)
          = length (map int [0..<nat (nRow_cols tab)]
                    @ map (\<lambda>k. nRow_cols tab + int k) [0..<nat (nCol_key tab)])"
    using assms by (simp add: all_columns_def nat_add_distrib)
next
  fix i assume "i < length (all_columns tab)"
  then have i: "i < nat (nRow_cols tab + nCol_key tab)" by (simp add: all_columns_def)
  show "all_columns tab ! i
          = (map int [0..<nat (nRow_cols tab)]
             @ map (\<lambda>k. nRow_cols tab + int k) [0..<nat (nCol_key tab)]) ! i"
  proof (cases "i < nat (nRow_cols tab)")
    case True
    with i show ?thesis by (simp add: all_columns_def nth_append)
  next
    case False
    then have "i - nat (nRow_cols tab) < nat (nCol_key tab)"
      using i assms by linarith
    with False i assms show ?thesis
      by (simp add: all_columns_def nth_append)
  qed
qed

text \<open>
  Reading the columns of the declared schema from a positioned cursor gives the row of
  the reference description and leaves the column statements ready.
\<close>

lemma read_row:
  assumes ready: "col_stmts_ready pq cks tab"
    and pos: "pivot_key cur = Key_array (map Some key)"
    and len: "int (length key) = nRow_cols tab"
    and nk: "nRow_key tab \<le> nRow_cols tab"
    and nc: "nCol_key tab = int (length cks)"
  shows "\<exists>tab'. read_columns tab cur (all_columns tab) = Inr (tab', scanned_row pq cks key)
           \<and> col_stmts_ready pq cks tab' \<and> nRow_cols tab' = nRow_cols tab
           \<and> nRow_key tab' = nRow_key tab \<and> nCol_key tab' = nCol_key tab \<and> db tab' = db tab"
proof -
  have nr: "nat (nRow_cols tab) = length key" and ncn: "nat (nCol_key tab) = length cks"
    and nonneg: "0 \<le> nRow_cols tab" "0 \<le> nCol_key tab"
    using len nc by auto
  have split: "all_columns tab
           = map int [0..<length key] @ map (\<lambda>k. nRow_cols tab + int k) [0..<length cks]"
    using all_columns_split [OF nonneg] unfolding nr ncn .
  have keys: "read_columns tab cur (map int [0..<length key])
                = Inr (tab, map (\<lambda>i. key ! i) [0..<length key])"
    by (rule read_columns_keys [OF pos]) (use len in auto)
  have kv: "map (\<lambda>i. key ! i) [0..<length key] = key" by (rule map_nth)
  have le: "nRow_key tab \<le> int (length key)" using nk len by simp
  from read_columns_pivots [OF ready pos le, of "[0..<length cks]"]
  obtain tab' where piv: "read_columns tab cur (map (\<lambda>k. nRow_cols tab + int k) [0..<length cks])
                  = Inr (tab', map (\<lambda>k. bound_cell pq key (cks ! k)) [0..<length cks])"
    and r: "col_stmts_ready pq cks tab'" "nRow_cols tab' = nRow_cols tab"
      "nRow_key tab' = nRow_key tab"
    by auto
  have cv: "map (\<lambda>k. bound_cell pq key (cks ! k)) [0..<length cks] = map (bound_cell pq key) cks"
    by (intro nth_equalityI) simp_all
  have all: "read_columns tab cur (all_columns tab) = Inr (tab', scanned_row pq cks key)"
    by (simp add: split read_columns_append keys kv piv cv scanned_row_def)
  from read_columns_frame [OF all] all r show ?thesis by simp
qed

subsection \<open>Advancing\<close>

lemma copy_row_key_row:
  assumes "st_row s = Some r" and "length r = nat (nRow_cols tab)"
  shows "copy_row_key tab (Some s) = map Some r"
  using assms
  by (intro nth_equalityI)
    (auto simp: copy_row_key_def column_value_handle_def sqlite3_column_value_def)

lemma pivotNext_positioned:
  assumes pos: "positioned key (r # rest) cur"
    and cols: "0 < nRow_cols tab"
    and len: "length r = nat (nRow_cols tab)"
  shows "\<exists>cur'. pivotNext tab cur = Inr cur' \<and> positioned r rest cur'"
proof -
  from pos obtain s where s: "stmt cur = Some s" "st_pending s = Some (r # rest)"
    and k: "pivot_key cur = Key_array (map Some key)" and "rc cur = SQLITE_ROW"
    by (auto simp: positioned_def)
  let ?s' = "s\<lparr>st_pending := Some rest, st_row := Some r\<rparr>"
  have st: "step_handle (stmt cur) = (SQLITE_ROW, Some ?s')"
    by (simp add: step_handle_def s sqlite3_step_def)
  have cp: "copy_row_key tab (Some ?s') = map Some r"
    by (rule copy_row_key_row) (simp_all add: len)
  show ?thesis
    using cols
    by (simp add: pivotNext_def k st cp positioned_def SQLITE_ROW_def SQLITE_DONE_def)
qed

lemma pivotNext_last:
  assumes pos: "positioned key [] cur"
  shows "\<exists>cur'. pivotNext tab cur = Inr cur' \<and> rc cur' = SQLITE_DONE
           \<and> pivot_key cur' = Key_array (replicate (length key) None)"
proof -
  from pos obtain s where s: "stmt cur = Some s" "st_pending s = Some []"
    and k: "pivot_key cur = Key_array (map Some key)"
    by (auto simp: positioned_def)
  have st: "step_handle (stmt cur)
              = (SQLITE_DONE, Some (s\<lparr>st_pending := None, st_row := None\<rparr>))"
    by (simp add: step_handle_def s sqlite3_step_def)
  show ?thesis
    by (simp add: pivotNext_def k st)
qed

subsection \<open>The scan loop\<close>

lemma scan_loop_rows:
  assumes "col_stmts_ready pq cks tab"
    and "positioned key rest cur"
    and "\<forall>r \<in> set (key # rest). int (length r) = nRow_cols tab"
    and "0 < nRow_cols tab"
    and "nRow_key tab \<le> nRow_cols tab"
    and "nCol_key tab = int (length cks)"
    and "length rest + 2 \<le> fuel"
  shows "\<exists>tab' cur'. scan_loop fuel tab cur
                       = (map (scanned_row pq cks) (key # rest), Inr (tab', cur'))
           \<and> pivot_key cur' = Key_freed \<and> nRow_cols tab' = nRow_cols tab"
  using assms
proof (induction rest arbitrary: key cur tab fuel)
  case Nil
  from Nil.prems(7) have "2 \<le> fuel" by simp
  then obtain f where fuel: "fuel = Suc (Suc f)"
    by (cases fuel) (auto simp: Suc_le_eq gr0_conv_Suc)
  from Nil.prems(2) have rcv: "rc cur = SQLITE_ROW"
    and pk: "pivot_key cur = Key_array (map Some key)"
    by (simp_all add: positioned_def)
  have eof: "pivotEof tab cur = Inr (False, cur)"
    by (simp add: pivotEof_def rcv SQLITE_ROW_def SQLITE_DONE_def)
  have lk: "int (length key) = nRow_cols tab" using Nil.prems(3) by simp
  from read_row [OF Nil.prems(1) pk lk Nil.prems(5,6)]
  obtain tab1 where rd: "read_columns tab cur (all_columns tab) = Inr (tab1, scanned_row pq cks key)"
    and n1: "nRow_cols tab1 = nRow_cols tab"
    by blast
  from pivotNext_last [OF Nil.prems(2), of tab1]
  obtain cur2 where nx: "pivotNext tab1 cur = Inr cur2" and dn: "rc cur2 = SQLITE_DONE"
    and k2: "pivot_key cur2 = Key_array (replicate (length key) None)"
    by blast
  have eof2: "pivotEof tab1 cur2 = Inr (True, cur2\<lparr>pivot_key := Key_freed, stmt := None\<rparr>)"
    by (simp add: pivotEof_def dn k2)
  show ?case
    by (simp add: fuel eof rd nx eof2 n1)
next
  case (Cons r rest)
  from Cons.prems(7) obtain f where fuel: "fuel = Suc f" and f: "length rest + 2 \<le> f"
    by (cases fuel) auto
  from Cons.prems(2) have rcv: "rc cur = SQLITE_ROW"
    and pk: "pivot_key cur = Key_array (map Some key)"
    by (simp_all add: positioned_def)
  have eof: "pivotEof tab cur = Inr (False, cur)"
    by (simp add: pivotEof_def rcv SQLITE_ROW_def SQLITE_DONE_def)
  have lk: "int (length key) = nRow_cols tab" using Cons.prems(3) by simp
  from read_row [OF Cons.prems(1) pk lk Cons.prems(5,6)]
  obtain tab1 where rd: "read_columns tab cur (all_columns tab) = Inr (tab1, scanned_row pq cks key)"
    and r1: "col_stmts_ready pq cks tab1" and n1: "nRow_cols tab1 = nRow_cols tab"
    and k1: "nRow_key tab1 = nRow_key tab" and c1: "nCol_key tab1 = nCol_key tab"
    by blast
  have lr: "length r = nat (nRow_cols tab1)"
    using Cons.prems(3) n1 by auto
  have pos1: "0 < nRow_cols tab1" using Cons.prems(4) n1 by simp
  from pivotNext_positioned [OF Cons.prems(2) pos1 lr]
  obtain cur2 where nx: "pivotNext tab1 cur = Inr cur2" and p2: "positioned r rest cur2"
    by blast
  have wf1: "\<forall>x \<in> set (r # rest). int (length x) = nRow_cols tab1"
    using Cons.prems(3) n1 by simp
  have le1: "nRow_key tab1 \<le> nRow_cols tab1" using Cons.prems(5) n1 k1 by simp
  have nc1: "nCol_key tab1 = int (length cks)" using Cons.prems(6) c1 by simp
  have "\<exists>tab' cur'. scan_loop f tab1 cur2
                       = (map (scanned_row pq cks) (r # rest), Inr (tab', cur'))
           \<and> pivot_key cur' = Key_freed \<and> nRow_cols tab' = nRow_cols tab1"
    by (rule Cons.IH [OF r1 p2 wf1 pos1 le1 nc1 f])
  then obtain tab2 cur3 where
    rec: "scan_loop f tab1 cur2 = (map (scanned_row pq cks) (r # rest), Inr (tab2, cur3))"
    and fr: "pivot_key cur3 = Key_freed" and n2: "nRow_cols tab2 = nRow_cols tab1"
    by blast
  show ?case
    by (simp add: fuel eof rd nx rec fr n2 n1)
qed

subsection \<open>The full scan\<close>

lemma pivotFilter_no_row:
  assumes "db_prepare (db tab) z = Inr kq"
    and "p_run kq (replicate (p_nparams kq) SqlNull) = []"
  shows "rc (pivotFilter tab pivotOpen z []) = SQLITE_DONE"
    and "pivot_key (pivotFilter tab pivotOpen z []) = Key_null"
  using assms
  by (simp_all add: pivotFilter_def sqlite3_prepare_v2_def step_handle_def sqlite3_step_def
      new_stmt_def)

lemma pivotFilter_row:
  assumes "db_prepare (db tab) z = Inr kq"
    and "p_run kq (replicate (p_nparams kq) SqlNull) = r # rest"
    and "0 < nRow_cols tab" and "length r = nat (nRow_cols tab)"
  shows "positioned r rest (pivotFilter tab pivotOpen z [])"
proof -
  let ?s = "(new_stmt kq)\<lparr>st_pending := Some rest, st_row := Some r\<rparr>"
  have st: "step_handle (Some (new_stmt kq)) = (SQLITE_ROW, Some ?s)"
    using assms(2) by (simp add: step_handle_def sqlite3_step_def new_stmt_def)
  have cp: "copy_row_key tab (Some ?s) = map Some r"
    by (rule copy_row_key_row) (simp_all add: assms(4))
  show ?thesis
    using assms(1,3)
    by (simp add: pivotFilter_def sqlite3_prepare_v2_def st cp malloc_keys_def positioned_def
        SQLITE_ROW_def SQLITE_DONE_def)
qed

lemma no_constraints_plan:
  assumes "int (length (key_sql_col_names tab)) = nRow_cols tab"
  shows "pivotBestIndex tab no_constraints = Inr (tab, spec_plan tab no_constraints)"
    and "idxStr (spec_plan tab no_constraints) = Some (key_sql_full_table_scan tab)"
proof -
  have "request_in_range tab no_constraints"
    by (simp add: request_in_range_def no_constraints_def)
  then show "pivotBestIndex tab no_constraints = Inr (tab, spec_plan tab no_constraints)"
    using assms by (rule pivotBestIndex_total)
  show "idxStr (spec_plan tab no_constraints) = Some (key_sql_full_table_scan tab)"
    by (simp add: spec_plan_def no_constraints_def spec_where_def where_text_def
        spec_orderby_def orderby_text_def)
qed

text \<open>
  What the scan without constraints and ORDER BY terms does on a table that
  pivotConnect built, from xBestIndex to xClose: it hands out one row per row of the key
  query; without a row it ends with the table object as it was; after at least one row
  xEof has freed the key array and kept the pointer, and xClose reads the freed array.
\<close>

lemma scan_result:
  assumes connect: "pivotConnect d a3 a4 a5 = Connected r tab sql"
    and kq: "db_prepare d (select_from a3) = Inr kq"
    and pq: "db_prepare d (select_from a5) = Inr pq"
    and cq: "db_prepare d (select_from a4) = Inr cq"
    and krows: "krows = p_run kq (replicate (p_nparams kq) SqlNull)"
    and cks: "cks = map (\<lambda>c. row_value c 0) (p_run cq (replicate (p_nparams cq) SqlNull))"
    and cols: "p_columns kq \<noteq> []"
    and wf: "\<forall>key \<in> set krows. length key = length (p_columns kq)"
    and fuel: "length krows < fuel"
  shows "scan fuel tab no_constraints []
           = (map (scanned_row pq cks) krows,
              if krows = [] then Inr tab else Inl Use_after_free)"
proof -
  note c = pivotConnect_Connected [OF connect kq pq cq]
  have ready: "col_stmts_ready pq cks tab"
    unfolding cks by (rule connect_col_stmts_ready [OF connect kq pq cq])
  have dbt: "db tab = d" and full: "key_sql_full_table_scan tab = select_from a3"
    and nr: "nRow_cols tab = int (length (p_columns kq))"
    and nk: "nRow_key tab \<le> nRow_cols tab"
    and nc: "nCol_key tab = int (length cks)"
    and names: "int (length (key_sql_col_names tab)) = nRow_cols tab"
    using c(4) by (simp_all add: c(1) cks)
  have pos: "0 < nRow_cols tab" using cols nr by simp
  let ?cur = "pivotFilter tab pivotOpen (select_from a3) []"
  have sc: "scan fuel tab no_constraints []
              = (case scan_loop fuel tab ?cur of
                   (rows, Inl e) \<Rightarrow> (rows, Inl e)
                 | (rows, Inr (tab2, cur)) \<Rightarrow>
                     (case pivotClose tab2 cur of
                        Inl e \<Rightarrow> (rows, Inl e)
                      | Inr u \<Rightarrow> (rows, Inr tab2)))"
    by (simp add: scan_def no_constraints_plan [OF names] full fmt_s_def)
  have prep: "db_prepare (db tab) (select_from a3) = Inr kq"
    by (simp add: dbt kq)
  show ?thesis
  proof (cases krows)
    case Nil
    from fuel obtain f where f: "fuel = Suc f" by (cases fuel) auto
    note e = pivotFilter_no_row [OF prep Nil [unfolded krows]]
    have loop: "scan_loop (Suc f) tab ?cur = ([], Inr (tab, ?cur\<lparr>stmt := None\<rparr>))"
      by (simp add: pivotEof_def e)
    have cl: "pivotClose tab (?cur\<lparr>stmt := None\<rparr>) = Inr ()"
      by (simp add: pivotClose_def e)
    show ?thesis
      unfolding sc unfolding f loop by (simp add: Nil cl)
  next
    case (Cons key rest)
    have lk: "length key = nat (nRow_cols tab)"
      using wf nr Cons by simp
    have p: "positioned key rest ?cur"
      by (rule pivotFilter_row [OF prep Cons [unfolded krows] pos lk])
    have w: "\<forall>x \<in> set (key # rest). int (length x) = nRow_cols tab"
      using wf nr Cons by simp
    have fl: "length rest + 2 \<le> fuel" using fuel Cons by simp
    from scan_loop_rows [OF ready p w pos nk nc fl]
    obtain tab' cur' where
      loop: "scan_loop fuel tab ?cur = (map (scanned_row pq cks) (key # rest), Inr (tab', cur'))"
      and fr: "pivot_key cur' = Key_freed" and n': "nRow_cols tab' = nRow_cols tab"
      by blast
    have cl: "pivotClose tab' cur' = Inl Use_after_free"
      using pos by (simp add: pivotClose_def fr n')
    show ?thesis
      unfolding sc loop by (simp add: Cons cl)
  qed
qed




lemma readme_prepare:
  "db_prepare readme_db (select_from ''r'') = Inr readme_kq"
  "db_prepare readme_db (select_from ''x'') = Inr readme_pq"
  "db_prepare readme_db (select_from ''c'') = Inr readme_cq"
  by (simp_all add: readme_db_def readme_eq_sql_def select_from_def quote_ident_def)




subsection \<open>Closing\<close>

text \<open>
  pivotEof frees the key array and leaves the pointer in \<open>cur->pivot_key\<close>, where it
  sets \<open>cur->stmt\<close> to the null pointer and where pivotFilter sets \<open>cur->pivot_key\<close> to
  the null pointer.  After a scan that handed out at least one row, pivotClose
  therefore reads the freed array and frees it a second time.
\<close>

lemma pivotClose_after_scan:
  assumes "pivotNext tab cur0 = Inr cur1" and "rc cur1 = SQLITE_DONE"
    and "pivot_key cur0 = Key_array ks" and "0 < nRow_cols tab"
    and "pivotEof tab cur1 = Inr (b, cur2)"
  shows "pivotClose tab cur2 = Inl Use_after_free"
  using assms
  by (auto simp: pivotNext_def pivotEof_def pivotClose_def
      split: prod.splits if_splits key_array.splits)

lemma full_scan_close:
  assumes "pivotConnect d a3 a4 a5 = Connected r tab sql"
    and "db_prepare d (select_from a3) = Inr kq"
    and "db_prepare d (select_from a5) = Inr pq"
    and "db_prepare d (select_from a4) = Inr cq"
    and "p_columns kq \<noteq> []"
    and "\<forall>key \<in> set (p_run kq (replicate (p_nparams kq) SqlNull)).
           length key = length (p_columns kq)"
    and "length (p_run kq (replicate (p_nparams kq) SqlNull)) < fuel"
    and "p_run kq (replicate (p_nparams kq) SqlNull) \<noteq> []"
  shows "snd (scan fuel tab no_constraints []) = Inl Use_after_free"
  using scan_result [OF assms(1,2,3,4) refl refl assms(5,6,7)] assms(8) by simp

lemma readme_scan_close:
  "snd (scan 4 readme_tab no_constraints []) = Inl Use_after_free"
  by (rule full_scan_close [OF readme_connect readme_prepare])
    (simp_all add: readme_kq_def)


end
